theory Spec2Isabelle
  imports Main
begin

section \<open>Data model of index.ts\<close>

text \<open>
  The interfaces of the source become records, with the field names of the source.
  JavaScript numbers that hold millisecond timestamps and second counts are modelled as
  integers (\<open>Date.now()\<close> and \<open>expires_in\<close> are integral and far below the range in
  which a double stops being exact). The \<open>axios\<close> member of \<open>OAuth2ClientOptions\<close> is
  the transport: its answers enter the model as events (refresh) or as a parameter (login).
\<close>

record OAuth2ClientOptions =
  clientId :: string
  clientSecret :: string
  tokenEndpoint :: string
  scopes :: "string list option"

record OAuth2ClientTokens =
  access_token :: string
  expires_in :: int
  refresh_token :: string
  scope :: string
  token_type :: string

record OAuth2ClientTokensWithExpiration = OAuth2ClientTokens +
  expires_at :: int

datatype GrantType = Grant_ad | Grant_password | Grant_refresh_token

text \<open>\<open>ClientOptions\<close>: the body of a grant request (fields prefixed \<open>co_\<close>).\<close>

record ClientOptions =
  co_client_id :: string
  co_code :: "string option"
  co_state :: "string option"
  co_username :: "string option"
  co_password :: "string option"
  co_client_secret :: string
  co_grant_type :: GrantType
  co_scope :: "string option"

text \<open>The object literal that \<open>getNewAccessToken\<close> posts (fields prefixed \<open>rb_\<close>).\<close>

record RefreshBody =
  rb_grant_type :: GrantType
  rb_refresh_token :: string
  rb_client_id :: string
  rb_client_secret :: string
  rb_scope :: "string option"

text \<open>One call of \<open>axios.post(url, body, {headers})\<close>.\<close>

record 'b request =
  rq_url :: string
  rq_body :: 'b
  rq_content_type :: string

text \<open>
  Values that are thrown or that reject a promise: what the transport rejects with, and
  \<open>Error\<close> objects with a message and an optional cause. The source only ever builds
  \<open>Error\<close> objects without a cause.
\<close>

datatype thrown = AxiosError string | Error string "thrown option"

text \<open>
  A registered callback \<open>(tokens) => void\<close>: a name, by which its invocations are
  recognised, and whether it throws on a given token set.
\<close>

record callback =
  cb_id :: nat
  cb_throws :: "OAuth2ClientTokensWithExpiration \<Rightarrow> bool"

datatype attempt = Initial | Retry

datatype pstate = Pending | Fulfilled | Rejected thrown

text \<open>How one call of \<open>getAccessToken\<close> settles.\<close>

datatype outcome = Value string | Thrown thrown

text \<open>
  The observable actions of the store, in the order in which the code performs them:
  a network call (its number and request), the assignment \<open>this.tokens = tokens\<close>, an
  invocation of the callback, \<open>resolve()\<close> and \<open>reject(e)\<close> of a refresh promise, the
  settling of a caller's \<open>getAccessToken()\<close>, \<open>console.error\<close>, \<open>setTimeout\<close>, and the
  assignments to \<open>this._promise\<close>.
\<close>

datatype effect =
    Post nat "RefreshBody request"
  | Assign OAuth2ClientTokensWithExpiration
  | Notify nat OAuth2ClientTokensWithExpiration
  | Resolve nat
  | Reject nat thrown
  | Return nat outcome
  | ConsoleError string
  | SetTimeout nat int
  | SetPromise nat
  | ClearPromise

text \<open>A network call of a refresh: the promise it works for, which attempt it is, and
  whether the transport has yet to answer.\<close>

record net_call =
  nc_promise :: nat
  nc_attempt :: attempt
  nc_request :: "RefreshBody request"
  nc_open :: bool

record timer =
  tm_due :: int
  tm_promise :: nat
  tm_armed :: bool

text \<open>
  The \<open>TokenStore\<close> object (\<open>options\<close>, \<open>tokens\<close>, \<open>_promise\<close>,
  \<open>onTokensRefreshedCallback\<close>) together with the part of the JavaScript runtime it
  lives in: the refresh promises created so far (a promise is its index), the callers
  suspended in \<open>await this.refreshToken()\<close> with the promise they wait for, the network
  calls and timers issued so far, the clock \<open>Date.now()\<close>, and the trace of effects.
\<close>

record TokenStore =
  options :: OAuth2ClientOptions
  tokens :: OAuth2ClientTokensWithExpiration
  promise :: "nat option"
  onTokensRefreshedCallback :: "callback option"
  promises :: "pstate list"
  waiters :: "(nat \<times> nat) list"
  calls :: "net_call list"
  timers :: "timer list"
  now :: int
  trace :: "effect list"

section \<open>TokenStore\<close>

fun join :: "string \<Rightarrow> string list \<Rightarrow> string" where
  "join sep [] = []"
| "join sep [x] = x"
| "join sep (x # y # ys) = x @ sep @ join sep (y # ys)"

text \<open>\<open>this.options.scopes?.join(' ')\<close>\<close>

definition joined_scopes :: "OAuth2ClientOptions \<Rightarrow> string option" where
  "joined_scopes opts = map_option (join '' '') (scopes opts)"

definition emit :: "effect list \<Rightarrow> TokenStore \<Rightarrow> TokenStore" where
  "emit es s = s\<lparr>trace := trace s @ es\<rparr>"

definition onRefreshToken :: "callback \<Rightarrow> TokenStore \<Rightarrow> TokenStore" where
  "onRefreshToken cb s = s\<lparr>onTokensRefreshedCallback := Some cb\<rparr>"

definition getTokens :: "TokenStore \<Rightarrow> OAuth2ClientTokensWithExpiration" where
  "getTokens s = tokens s"

definition getRefreshToken :: "TokenStore \<Rightarrow> string" where
  "getRefreshToken s = refresh_token (tokens s)"

definition accessTokenExpired :: "TokenStore \<Rightarrow> bool" where
  "accessTokenExpired s = (now s \<ge> expires_at (tokens s))"

text \<open>
  \<open>setTokens\<close> assigns the tokens and then calls the callback, if one is registered.
  The result says whether the callback threw; the assignment stays either way.
\<close>

definition setTokens :: "OAuth2ClientTokensWithExpiration \<Rightarrow> TokenStore \<Rightarrow> bool \<times> TokenStore" where
  "setTokens t s =
     (let s1 = emit [Assign t] (s\<lparr>tokens := t\<rparr>)
      in case onTokensRefreshedCallback s1 of
           None \<Rightarrow> (False, s1)
         | Some cb \<Rightarrow> (cb_throws cb t, emit [Notify (cb_id cb) t] s1))"

text \<open>
  \<open>getNewAccessToken\<close> in two halves, before and after its \<open>await\<close>: the request it
  posts, and the token set it builds from the response data at the time \<open>t\<close> at which it
  resumes.
\<close>

definition refresh_request :: "OAuth2ClientOptions \<Rightarrow> string \<Rightarrow> RefreshBody request" where
  "refresh_request opts refreshToken =
     \<lparr>rq_url = tokenEndpoint opts,
      rq_body = \<lparr>rb_grant_type = Grant_refresh_token,
                 rb_refresh_token = refreshToken,
                 rb_client_id = clientId opts,
                 rb_client_secret = clientSecret opts,
                 rb_scope = joined_scopes opts\<rparr>,
      rq_content_type = ''application/x-www-form-urlencoded''\<rparr>"

definition getNewAccessToken_post :: "nat \<Rightarrow> attempt \<Rightarrow> string \<Rightarrow> TokenStore \<Rightarrow> TokenStore" where
  "getNewAccessToken_post p a refreshToken s =
     (let rq = refresh_request (options s) refreshToken
      in s\<lparr>calls := calls s @ [\<lparr>nc_promise = p, nc_attempt = a, nc_request = rq, nc_open = True\<rparr>],
           trace := trace s @ [Post (length (calls s)) rq]\<rparr>)"

definition getNewAccessToken :: "OAuth2ClientTokens \<Rightarrow> int \<Rightarrow> OAuth2ClientTokensWithExpiration" where
  "getNewAccessToken data t =
     \<lparr>access_token = access_token data,
      expires_in = expires_in data,
      refresh_token = refresh_token data,
      scope = scope data,
      token_type = token_type data,
      expires_at = t + expires_in data * 1000\<rparr>"

text \<open>
  Promises. \<open>settle\<close> moves a pending promise to its final state and resumes every caller
  that waits for it, in the order in which they began to wait: \<open>getAccessToken\<close> then
  returns \<open>this.tokens.access_token\<close> or rethrows. Settling a settled promise does nothing.
\<close>

definition pstatus :: "TokenStore \<Rightarrow> nat \<Rightarrow> pstate" where
  "pstatus s p = (if p < length (promises s) then promises s ! p else Pending)"

definition waiters_of :: "nat \<Rightarrow> TokenStore \<Rightarrow> nat list" where
  "waiters_of p s = map fst (filter (\<lambda>w. snd w = p) (waiters s))"

definition resumed :: "pstate \<Rightarrow> TokenStore \<Rightarrow> outcome" where
  "resumed st s = (case st of Rejected e \<Rightarrow> Thrown e | _ \<Rightarrow> Value (access_token (tokens s)))"

definition settle :: "nat \<Rightarrow> pstate \<Rightarrow> TokenStore \<Rightarrow> TokenStore" where
  "settle p st s =
     (if p < length (promises s) \<and> promises s ! p = Pending then
        s\<lparr>promises := (promises s)[p := st],
          waiters := filter (\<lambda>w. snd w \<noteq> p) (waiters s),
          trace := trace s @ map (\<lambda>c. Return c (resumed st s)) (waiters_of p s)\<rparr>
      else s)"

definition resolve :: "nat \<Rightarrow> TokenStore \<Rightarrow> TokenStore" where
  "resolve p s = settle p Fulfilled (emit [Resolve p] s)"

definition reject :: "nat \<Rightarrow> thrown \<Rightarrow> TokenStore \<Rightarrow> TokenStore" where
  "reject p e s = settle p (Rejected e) (emit [Reject p e] s)"

text \<open>\<open>await\<close> of promise \<open>p\<close> inside the \<open>getAccessToken\<close> of caller \<open>c\<close>.\<close>

definition await :: "nat \<Rightarrow> nat \<Rightarrow> TokenStore \<Rightarrow> TokenStore" where
  "await c p s =
     (case pstatus s p of
        Pending \<Rightarrow> s\<lparr>waiters := waiters s @ [(c, p)]\<rparr>
      | st \<Rightarrow> emit [Return c (resumed st s)] s)"

definition setTimeout :: "nat \<Rightarrow> int \<Rightarrow> TokenStore \<Rightarrow> TokenStore" where
  "setTimeout p delay s =
     s\<lparr>timers := timers s @ [\<lparr>tm_due = now s + delay, tm_promise = p, tm_armed = True\<rparr>],
       trace := trace s @ [SetTimeout (length (timers s)) delay]\<rparr>"

text \<open>The handlers of the promise chains in \<open>refreshToken\<close>; the first component of a
  result says whether the handler threw.\<close>

definition then_handler :: "nat \<Rightarrow> OAuth2ClientTokens \<Rightarrow> TokenStore \<Rightarrow> bool \<times> TokenStore" where
  "then_handler p data s =
     (case setTokens (getNewAccessToken data (now s)) s of
        (threw, s1) \<Rightarrow> if threw then (True, s1) else (False, resolve p s1))"

definition catch_handler :: "nat \<Rightarrow> TokenStore \<Rightarrow> TokenStore" where
  "catch_handler p s =
     setTimeout p 1000 (emit [ConsoleError ''Failed to refresh access token, trying again...''] s)"

definition retry_catch_handler :: "nat \<Rightarrow> TokenStore \<Rightarrow> TokenStore" where
  "retry_catch_handler p s = reject p (Error ''Failed to refresh access token'' None) s"

definition finally_handler :: "TokenStore \<Rightarrow> TokenStore" where
  "finally_handler s = emit [ClearPromise] (s\<lparr>promise := None\<rparr>)"

text \<open>
  \<open>refreshToken\<close>, called by caller \<open>c\<close>: join the promise in \<open>_promise\<close>, or create one,
  post the first attempt from inside its executor, store it in \<open>_promise\<close> and wait.
\<close>

definition refreshToken :: "nat \<Rightarrow> TokenStore \<Rightarrow> TokenStore" where
  "refreshToken c s =
     (case promise s of
        Some p \<Rightarrow> await c p s
      | None \<Rightarrow>
          (let p = length (promises s);
               s1 = s\<lparr>promises := promises s @ [Pending]\<rparr>;
               s2 = getNewAccessToken_post p Initial (getRefreshToken s1) s1;
               s3 = emit [SetPromise p] (s2\<lparr>promise := Some p\<rparr>)
           in await c p s3))"

definition getAccessToken :: "nat \<Rightarrow> TokenStore \<Rightarrow> TokenStore" where
  "getAccessToken c s =
     (if accessTokenExpired s then refreshToken c s
      else emit [Return c (Value (access_token (tokens s)))] s)"

text \<open>
  The transport answers network call \<open>k\<close>, with an error or with response data. The chain
  of the first attempt is \<open>then\<close>, \<open>catch\<close> (log, start the timer), \<open>finally\<close>
  (\<open>_promise = null\<close>); the chain of the retry is \<open>then\<close>, \<open>catch\<close> (reject). An answer
  for a call that is not open is ignored.
\<close>

definition response :: "nat \<Rightarrow> thrown + OAuth2ClientTokens \<Rightarrow> TokenStore \<Rightarrow> TokenStore" where
  "response k r s =
     (if k < length (calls s) \<and> nc_open (calls s ! k) then
        (let c = calls s ! k;
             p = nc_promise c;
             s0 = s\<lparr>calls := (calls s)[k := c\<lparr>nc_open := False\<rparr>]\<rparr>
         in case (case r of Inl e \<Rightarrow> (True, s0) | Inr data \<Rightarrow> then_handler p data s0) of
              (failed, s1) \<Rightarrow>
                (case nc_attempt c of
                   Initial \<Rightarrow> finally_handler (if failed then catch_handler p s1 else s1)
                 | Retry \<Rightarrow> (if failed then retry_catch_handler p s1 else s1)))
      else s)"

text \<open>Timer \<open>i\<close> fires, which it can once its delay has passed: the retry is posted with
  the refresh token that the store holds now.\<close>

definition timeout :: "nat \<Rightarrow> TokenStore \<Rightarrow> TokenStore" where
  "timeout i s =
     (if i < length (timers s) \<and> tm_armed (timers s ! i) \<and> tm_due (timers s ! i) \<le> now s then
        (let t = timers s ! i;
             s1 = s\<lparr>timers := (timers s)[i := t\<lparr>tm_armed := False\<rparr>]\<rparr>
         in getNewAccessToken_post (tm_promise t) Retry (getRefreshToken s1) s1)
      else s)"

text \<open>
  What can happen to a store, one task of the event loop at a time: a caller calls
  \<open>getAccessToken()\<close>, a callback is registered, the transport answers a call, a timer
  fires, the clock advances. A task runs to its end, with all the promise reactions it
  triggers, before the next event: JavaScript is single-threaded, and every suspension
  point of the source (the \<open>await\<close> of the post, the timer, the \<open>await\<close> of the refresh
  promise) lies between two events. The clock only moves forward.
\<close>

datatype event =
    Call nat
  | OnRefresh callback
  | Response nat "thrown + OAuth2ClientTokens"
  | Timeout nat
  | Tick nat

fun step :: "TokenStore \<Rightarrow> event \<Rightarrow> TokenStore" where
  "step s (Call c) = getAccessToken c s"
| "step s (OnRefresh cb) = onRefreshToken cb s"
| "step s (Response k r) = response k r s"
| "step s (Timeout i) = timeout i s"
| "step s (Tick d) = s\<lparr>now := now s + int d\<rparr>"

definition run :: "TokenStore \<Rightarrow> event list \<Rightarrow> TokenStore" where
  "run s es = foldl step s es"

section \<open>OAuth2Client\<close>

definition new_TokenStore :: "OAuth2ClientOptions \<Rightarrow> OAuth2ClientTokensWithExpiration \<Rightarrow> int \<Rightarrow> TokenStore" where
  "new_TokenStore opts toks t =
     \<lparr>options = opts, tokens = toks, promise = None, onTokensRefreshedCallback = None,
      promises = [], waiters = [], calls = [], timers = [], now = t, trace = []\<rparr>"

text \<open>
  \<open>login\<close>: one \<open>axios.post\<close>, whose answer is given by \<open>post\<close>, and whose rejection
  rejects \<open>login\<close> with the same value; \<open>t\<close> is \<open>Date.now()\<close> when \<open>login\<close> resumes.
  The result lists the requests sent.
\<close>

definition login ::
  "OAuth2ClientOptions \<Rightarrow> (ClientOptions request \<Rightarrow> thrown + OAuth2ClientTokens) \<Rightarrow> int \<Rightarrow>
   ClientOptions \<Rightarrow> ClientOptions request list \<times> (thrown + TokenStore)" where
  "login opts post t clientOptions =
     (let rq = \<lparr>rq_url = tokenEndpoint opts, rq_body = clientOptions,
                rq_content_type = ''application/x-www-form-urlencoded''\<rparr>
      in ([rq],
          case post rq of
            Inl e \<Rightarrow> Inl e
          | Inr data \<Rightarrow>
              Inr (new_TokenStore opts
                    \<lparr>access_token = access_token data,
                     expires_in = expires_in data,
                     refresh_token = refresh_token data,
                     scope = scope data,
                     token_type = token_type data,
                     expires_at = t + expires_in data * 1000\<rparr> t)))"

definition loginPassword ::
  "OAuth2ClientOptions \<Rightarrow> (ClientOptions request \<Rightarrow> thrown + OAuth2ClientTokens) \<Rightarrow> int \<Rightarrow>
   string \<Rightarrow> string \<Rightarrow> ClientOptions request list \<times> (thrown + TokenStore)" where
  "loginPassword opts post t username password =
     login opts post t
       \<lparr>co_client_id = clientId opts, co_code = None, co_state = None,
        co_username = Some username, co_password = Some password,
        co_client_secret = clientSecret opts, co_grant_type = Grant_password,
        co_scope = joined_scopes opts\<rparr>"

definition loginAuthorization ::
  "OAuth2ClientOptions \<Rightarrow> (ClientOptions request \<Rightarrow> thrown + OAuth2ClientTokens) \<Rightarrow> int \<Rightarrow>
   string \<Rightarrow> string \<Rightarrow> GrantType \<Rightarrow> ClientOptions request list \<times> (thrown + TokenStore)" where
  "loginAuthorization opts post t code state grantType =
     login opts post t
       \<lparr>co_client_id = clientId opts, co_code = Some code, co_state = Some state,
        co_username = None, co_password = None,
        co_client_secret = clientSecret opts, co_grant_type = grantType,
        co_scope = joined_scopes opts\<rparr>"

section \<open>Observations and invariants\<close>

text \<open>
  Network call \<open>k\<close> is open, works for promise \<open>p\<close> and is attempt \<open>a\<close>.
\<close>

definition open_call :: "TokenStore \<Rightarrow> nat \<Rightarrow> nat \<Rightarrow> attempt \<Rightarrow> bool" where
  "open_call s k p a =
     (k < length (calls s) \<and> nc_open (calls s ! k) \<and> nc_promise (calls s ! k) = p \<and>
      nc_attempt (calls s ! k) = a)"

definition close_call :: "nat \<Rightarrow> net_call list \<Rightarrow> net_call list" where
  "close_call k cs = cs[k := (cs ! k)\<lparr>nc_open := False\<rparr>]"

text \<open>What the registered callback does on a token set: the invocation it adds to the
  trace, and whether it throws.\<close>

definition notify :: "TokenStore \<Rightarrow> OAuth2ClientTokensWithExpiration \<Rightarrow> effect list" where
  "notify s t = (case onTokensRefreshedCallback s of None \<Rightarrow> [] | Some cb \<Rightarrow> [Notify (cb_id cb) t])"

definition throws :: "TokenStore \<Rightarrow> OAuth2ClientTokensWithExpiration \<Rightarrow> bool" where
  "throws s t = (case onTokensRefreshedCallback s of None \<Rightarrow> False | Some cb \<Rightarrow> cb_throws cb t)"

text \<open>The callers that wait for promise \<open>p\<close> all settle with outcome \<open>out\<close>.\<close>

definition returns :: "nat \<Rightarrow> outcome \<Rightarrow> TokenStore \<Rightarrow> effect list" where
  "returns p out s = map (\<lambda>c. Return c out) (waiters_of p s)"

text \<open>The effects that happened between state \<open>s\<close> and a later state \<open>s'\<close>.\<close>

definition emitted :: "TokenStore \<Rightarrow> TokenStore \<Rightarrow> effect list" where
  "emitted s s' = drop (length (trace s)) (trace s')"

fun notifications :: "effect list \<Rightarrow> (nat \<times> OAuth2ClientTokensWithExpiration) list" where
  "notifications [] = []"
| "notifications (Notify n t # es) = (n, t) # notifications es"
| "notifications (e # es) = notifications es"

fun returned :: "effect list \<Rightarrow> (nat \<times> outcome) list" where
  "returned [] = []"
| "returned (Return c out # es) = (c, out) # returned es"
| "returned (e # es) = returned es"

text \<open>Event lists in which only callers call and time passes.\<close>

fun quiet :: "event \<Rightarrow> bool" where
  "quiet (Call c) = True"
| "quiet (Tick d) = True"
| "quiet e = False"

fun callers :: "event list \<Rightarrow> nat list" where
  "callers [] = []"
| "callers (Call c # es) = c # callers es"
| "callers (e # es) = callers es"

fun ticks :: "event list \<Rightarrow> nat" where
  "ticks [] = 0"
| "ticks (Tick d # es) = d + ticks es"
| "ticks (e # es) = ticks es"

text \<open>
  The states a store can be in: created by \<open>login\<close> (or by the constructor), then any
  events in any order.
\<close>

inductive reachable :: "TokenStore \<Rightarrow> bool" where
  start: "reachable (new_TokenStore opts toks t)"
| after: "reachable s \<Longrightarrow> reachable (step s e)"

text \<open>
  The invariant of the reachable states. \<open>work p s\<close> counts what is in flight for promise
  \<open>p\<close>: its open network calls and its armed timers. A pending promise has exactly one
  such item and a settled one has none; while \<open>_promise\<close> holds a promise, the first
  attempt of that promise is the open call; and only pending promises have waiters.
\<close>

definition work :: "nat \<Rightarrow> TokenStore \<Rightarrow> nat" where
  "work p s =
     length (filter (\<lambda>c. nc_open c \<and> nc_promise c = p) (calls s)) +
     length (filter (\<lambda>t. tm_armed t \<and> tm_promise t = p) (timers s))"

definition pending :: "TokenStore \<Rightarrow> nat \<Rightarrow> bool" where
  "pending s p = (p < length (promises s) \<and> promises s ! p = Pending)"

definition consistent :: "TokenStore \<Rightarrow> bool" where
  "consistent s =
     ((\<forall>p. work p s = (if pending s p then 1 else 0)) \<and>
      (\<forall>p. promise s = Some p \<longrightarrow> (\<exists>k. open_call s k p Initial)) \<and>
      (\<forall>w \<in> set (waiters s). pending s (snd w)))"

text \<open>The request that \<open>login\<close> posts for a grant body.\<close>

definition grant_request :: "OAuth2ClientOptions \<Rightarrow> ClientOptions \<Rightarrow> ClientOptions request" where
  "grant_request opts clientOptions =
     \<lparr>rq_url = tokenEndpoint opts, rq_body = clientOptions,
      rq_content_type = ''application/x-www-form-urlencoded''\<rparr>"

definition password_body :: "OAuth2ClientOptions \<Rightarrow> string \<Rightarrow> string \<Rightarrow> ClientOptions" where
  "password_body opts username password =
     \<lparr>co_client_id = clientId opts, co_code = None, co_state = None,
      co_username = Some username, co_password = Some password,
      co_client_secret = clientSecret opts, co_grant_type = Grant_password,
      co_scope = joined_scopes opts\<rparr>"

definition authorization_body ::
  "OAuth2ClientOptions \<Rightarrow> string \<Rightarrow> string \<Rightarrow> GrantType \<Rightarrow> ClientOptions" where
  "authorization_body opts code state grantType =
     \<lparr>co_client_id = clientId opts, co_code = Some code, co_state = Some state,
      co_username = None, co_password = None,
      co_client_secret = clientSecret opts, co_grant_type = grantType,
      co_scope = joined_scopes opts\<rparr>"

text \<open>
  An error object \<open>w\<close> wraps the error \<open>e\<close>: it is a different object that carries \<open>e\<close>
  as its cause (the specification's reading of an error of a named kind around a
  transport error).
\<close>

definition wraps :: "thrown \<Rightarrow> thrown \<Rightarrow> bool" where
  "wraps w e = (case w of Error msg (Some cause) \<Rightarrow> cause = e | _ \<Rightarrow> False)"

section \<open>A concrete store\<close>

text \<open>
  The scenario of the specification: the token set \<open>a1\<close>/\<open>r1\<close> with \<open>expires_in = 3600\<close>,
  created at time 0, so that it expires at 3600000.
\<close>

definition example_options :: OAuth2ClientOptions where
  "example_options =
     \<lparr>clientId = ''app'', clientSecret = ''secret'', tokenEndpoint = ''https://idp/token'',
      scopes = Some [''read'', ''write'']\<rparr>"

definition example_data :: "string \<Rightarrow> string \<Rightarrow> OAuth2ClientTokens" where
  "example_data a r =
     \<lparr>access_token = a, expires_in = 3600, refresh_token = r, scope = ''read write'',
      token_type = ''Bearer''\<rparr>"

definition example_store :: TokenStore where
  "example_store = new_TokenStore example_options (getNewAccessToken (example_data ''a1'' ''r1'') 0) 0"

definition example_request :: "string \<Rightarrow> RefreshBody request" where
  "example_request r = refresh_request example_options r"

text \<open>Two callbacks: one that always returns, one that throws on the token set whose
  access token is \<open>a2\<close> and returns on every other.\<close>

definition quiet_callback :: "nat \<Rightarrow> callback" where
  "quiet_callback n = \<lparr>cb_id = n, cb_throws = (\<lambda>t. False)\<rparr>"

definition picky_callback :: "nat \<Rightarrow> callback" where
  "picky_callback n = \<lparr>cb_id = n, cb_throws = (\<lambda>t. access_token t = ''a2'')\<rparr>"

definition refresh_failed :: thrown where
  "refresh_failed = Error ''Failed to refresh access token'' None"

definition network_error :: thrown where
  "network_error = AxiosError ''Network Error''"

section \<open>What each operation does to the state\<close>

lemma setTokens_eq:
  "setTokens t s = (throws s t, s\<lparr>tokens := t, trace := trace s @ Assign t # notify s t\<rparr>)"
  by (simp add: setTokens_def emit_def notify_def throws_def split: option.split)

lemma resolve_eq:
  "p < length (promises s) \<Longrightarrow> promises s ! p = Pending \<Longrightarrow>
   resolve p s =
     s\<lparr>promises := (promises s)[p := Fulfilled],
       waiters := filter (\<lambda>w. snd w \<noteq> p) (waiters s),
       trace := trace s @ Resolve p # returns p (Value (access_token (tokens s))) s\<rparr>"
  by (simp add: resolve_def settle_def emit_def resumed_def waiters_of_def returns_def)

lemma reject_eq:
  "p < length (promises s) \<Longrightarrow> promises s ! p = Pending \<Longrightarrow>
   reject p e s =
     s\<lparr>promises := (promises s)[p := Rejected e],
       waiters := filter (\<lambda>w. snd w \<noteq> p) (waiters s),
       trace := trace s @ Reject p e # returns p (Thrown e) s\<rparr>"
  by (simp add: reject_def settle_def emit_def resumed_def waiters_of_def returns_def)

lemma then_handler_throw:
  "throws s (getNewAccessToken data (now s)) \<Longrightarrow>
   then_handler p data s =
     (True, s\<lparr>tokens := getNewAccessToken data (now s),
              trace := trace s @ Assign (getNewAccessToken data (now s)) #
                                 notify s (getNewAccessToken data (now s))\<rparr>)"
  by (simp add: then_handler_def setTokens_eq)

lemma then_handler_ok:
  "\<not> throws s (getNewAccessToken data (now s)) \<Longrightarrow>
   p < length (promises s) \<Longrightarrow> promises s ! p = Pending \<Longrightarrow>
   then_handler p data s =
     (False, s\<lparr>tokens := getNewAccessToken data (now s),
               promises := (promises s)[p := Fulfilled],
               waiters := filter (\<lambda>w. snd w \<noteq> p) (waiters s),
               trace := trace s @ Assign (getNewAccessToken data (now s)) #
                                  notify s (getNewAccessToken data (now s)) @
                                  Resolve p # returns p (Value (access_token data)) s\<rparr>)"
  by (simp add: then_handler_def setTokens_eq resolve_eq returns_def waiters_of_def
      getNewAccessToken_def)

lemma throws_calls [simp]: "throws (s\<lparr>calls := cs\<rparr>) t = throws s t"
  by (simp add: throws_def)

lemma notify_calls [simp]: "notify (s\<lparr>calls := cs\<rparr>) t = notify s t"
  by (simp add: notify_def)

lemma returns_calls [simp]: "returns p out (s\<lparr>calls := cs\<rparr>) = returns p out s"
  by (simp add: returns_def waiters_of_def)

lemma getAccessToken_valid:
  "now s < expires_at (tokens s) \<Longrightarrow>
   getAccessToken c s = s\<lparr>trace := trace s @ [Return c (Value (access_token (tokens s)))]\<rparr>"
  by (simp add: getAccessToken_def accessTokenExpired_def emit_def)

lemma getAccessToken_start:
  "expires_at (tokens s) \<le> now s \<Longrightarrow> promise s = None \<Longrightarrow>
   getAccessToken c s =
     s\<lparr>promise := Some (length (promises s)),
       promises := promises s @ [Pending],
       waiters := waiters s @ [(c, length (promises s))],
       calls := calls s @ [\<lparr>nc_promise = length (promises s), nc_attempt = Initial,
                            nc_request = refresh_request (options s) (refresh_token (tokens s)),
                            nc_open = True\<rparr>],
       trace := trace s @ [Post (length (calls s)) (refresh_request (options s) (refresh_token (tokens s))),
                           SetPromise (length (promises s))]\<rparr>"
  by (simp add: getAccessToken_def accessTokenExpired_def emit_def refreshToken_def Let_def
      getNewAccessToken_post_def getRefreshToken_def await_def pstatus_def)

lemma getAccessToken_join:
  "expires_at (tokens s) \<le> now s \<Longrightarrow> promise s = Some p \<Longrightarrow> pending s p \<Longrightarrow>
   getAccessToken c s = s\<lparr>waiters := waiters s @ [(c, p)]\<rparr>"
  by (simp add: getAccessToken_def accessTokenExpired_def refreshToken_def await_def pstatus_def
      pending_def)

lemma response_ignored:
  "\<not> (k < length (calls s) \<and> nc_open (calls s ! k)) \<Longrightarrow> response k r s = s"
  by (auto simp: response_def)

lemma response_initial_fail:
  "open_call s k p Initial \<Longrightarrow>
   response k (Inl e) s =
     s\<lparr>promise := None,
       calls := close_call k (calls s),
       timers := timers s @ [\<lparr>tm_due = now s + 1000, tm_promise = p, tm_armed = True\<rparr>],
       trace := trace s @ [ConsoleError ''Failed to refresh access token, trying again...'',
                           SetTimeout (length (timers s)) 1000, ClearPromise]\<rparr>"
  by (simp add: response_def open_call_def close_call_def Let_def catch_handler_def
      finally_handler_def setTimeout_def emit_def)

lemma response_initial_throw:
  "open_call s k p Initial \<Longrightarrow> throws s (getNewAccessToken data (now s)) \<Longrightarrow>
   response k (Inr data) s =
     s\<lparr>tokens := getNewAccessToken data (now s),
       promise := None,
       calls := close_call k (calls s),
       timers := timers s @ [\<lparr>tm_due = now s + 1000, tm_promise = p, tm_armed = True\<rparr>],
       trace := trace s @ Assign (getNewAccessToken data (now s)) #
                          notify s (getNewAccessToken data (now s)) @
                          [ConsoleError ''Failed to refresh access token, trying again...'',
                           SetTimeout (length (timers s)) 1000, ClearPromise]\<rparr>"
  by (simp add: response_def open_call_def close_call_def Let_def catch_handler_def
      finally_handler_def setTimeout_def emit_def then_handler_throw)

lemma response_initial_ok:
  "open_call s k p Initial \<Longrightarrow> \<not> throws s (getNewAccessToken data (now s)) \<Longrightarrow>
   pending s p \<Longrightarrow>
   response k (Inr data) s =
     s\<lparr>tokens := getNewAccessToken data (now s),
       promise := None,
       promises := (promises s)[p := Fulfilled],
       waiters := filter (\<lambda>w. snd w \<noteq> p) (waiters s),
       calls := close_call k (calls s),
       trace := trace s @ Assign (getNewAccessToken data (now s)) #
                          notify s (getNewAccessToken data (now s)) @
                          Resolve p # returns p (Value (access_token data)) s @
                          [ClearPromise]\<rparr>"
  by (simp add: response_def open_call_def close_call_def Let_def pending_def
      finally_handler_def emit_def then_handler_ok)

lemma response_retry_fail:
  "open_call s k p Retry \<Longrightarrow> pending s p \<Longrightarrow>
   response k (Inl e) s =
     s\<lparr>promises := (promises s)[p := Rejected refresh_failed],
       waiters := filter (\<lambda>w. snd w \<noteq> p) (waiters s),
       calls := close_call k (calls s),
       trace := trace s @ Reject p refresh_failed # returns p (Thrown refresh_failed) s\<rparr>"
  by (simp add: response_def open_call_def close_call_def Let_def retry_catch_handler_def
      reject_eq pending_def refresh_failed_def)

lemma response_retry_throw:
  "open_call s k p Retry \<Longrightarrow> throws s (getNewAccessToken data (now s)) \<Longrightarrow>
   pending s p \<Longrightarrow>
   response k (Inr data) s =
     s\<lparr>tokens := getNewAccessToken data (now s),
       promises := (promises s)[p := Rejected refresh_failed],
       waiters := filter (\<lambda>w. snd w \<noteq> p) (waiters s),
       calls := close_call k (calls s),
       trace := trace s @ Assign (getNewAccessToken data (now s)) #
                          notify s (getNewAccessToken data (now s)) @
                          Reject p refresh_failed # returns p (Thrown refresh_failed) s\<rparr>"
  by (simp add: response_def open_call_def close_call_def Let_def retry_catch_handler_def
      then_handler_throw reject_eq returns_def waiters_of_def pending_def refresh_failed_def)

lemma response_retry_ok:
  "open_call s k p Retry \<Longrightarrow> \<not> throws s (getNewAccessToken data (now s)) \<Longrightarrow>
   pending s p \<Longrightarrow>
   response k (Inr data) s =
     s\<lparr>tokens := getNewAccessToken data (now s),
       promises := (promises s)[p := Fulfilled],
       waiters := filter (\<lambda>w. snd w \<noteq> p) (waiters s),
       calls := close_call k (calls s),
       trace := trace s @ Assign (getNewAccessToken data (now s)) #
                          notify s (getNewAccessToken data (now s)) @
                          Resolve p # returns p (Value (access_token data)) s\<rparr>"
  by (simp add: response_def open_call_def close_call_def Let_def then_handler_ok pending_def)

lemma timeout_due:
  "i < length (timers s) \<Longrightarrow> tm_armed (timers s ! i) \<Longrightarrow> tm_due (timers s ! i) \<le> now s \<Longrightarrow>
   timeout i s =
     s\<lparr>timers := (timers s)[i := (timers s ! i)\<lparr>tm_armed := False\<rparr>],
       calls := calls s @ [\<lparr>nc_promise = tm_promise (timers s ! i), nc_attempt = Retry,
                            nc_request = refresh_request (options s) (refresh_token (tokens s)),
                            nc_open = True\<rparr>],
       trace := trace s @ [Post (length (calls s))
                             (refresh_request (options s) (refresh_token (tokens s)))]\<rparr>"
  by (simp add: timeout_def Let_def getNewAccessToken_post_def getRefreshToken_def)

lemma timeout_ignored:
  "\<not> (i < length (timers s) \<and> tm_armed (timers s ! i) \<and> tm_due (timers s ! i) \<le> now s) \<Longrightarrow>
   timeout i s = s"
  by (auto simp: timeout_def)

lemma emitted_append [simp]: "trace s' = trace s @ es \<Longrightarrow> emitted s s' = es"
  by (simp add: emitted_def)

lemma notifications_append [simp]:
  "notifications (xs @ ys) = notifications xs @ notifications ys"
  by (induction xs rule: notifications.induct) simp_all

lemma returned_append [simp]: "returned (xs @ ys) = returned xs @ returned ys"
  by (induction xs rule: returned.induct) simp_all

lemma notifications_notify:
  "notifications (notify s t) =
     (case onTokensRefreshedCallback s of None \<Rightarrow> [] | Some cb \<Rightarrow> [(cb_id cb, t)])"
  by (simp add: notify_def split: option.split)

lemma notifications_returns [simp]: "notifications (returns p out s) = []"
proof -
  have "notifications (map (\<lambda>c. Return c out) cs) = []" for cs
    by (induction cs) simp_all
  then show ?thesis by (simp add: returns_def)
qed

lemma returned_returns [simp]: "returned (returns p out s) = map (\<lambda>c. (c, out)) (waiters_of p s)"
proof -
  have "returned (map (\<lambda>c. Return c out) cs) = map (\<lambda>c. (c, out)) cs" for cs
    by (induction cs) simp_all
  then show ?thesis by (simp add: returns_def)
qed

lemma returned_notify [simp]: "returned (notify s t) = []"
  by (simp add: notify_def split: option.split)

section \<open>The invariant of the reachable states\<close>

lemma filter_update_drop:
  "k < length xs \<Longrightarrow> P (xs ! k) \<Longrightarrow> \<not> P x \<Longrightarrow>
   length (filter P xs) = Suc (length (filter P (xs[k := x])))"
proof (induction xs arbitrary: k)
  case Nil
  then show ?case by simp
next
  case (Cons a xs)
  then show ?case by (cases k) auto
qed

lemma filter_update_same:
  "k < length xs \<Longrightarrow> P (xs ! k) = P x \<Longrightarrow>
   length (filter P (xs[k := x])) = length (filter P xs)"
proof (induction xs arbitrary: k)
  case Nil
  then show ?case by simp
next
  case (Cons a xs)
  then show ?case by (cases k) auto
qed

lemma filter_nth_pos:
  "k < length xs \<Longrightarrow> P (xs ! k) \<Longrightarrow> 0 < length (filter P xs)"
  by (metis filter_empty_conv length_greater_0_conv nth_mem)

lemma open_count_close:
  assumes "open_call s k q a"
  shows "length (filter (\<lambda>c. nc_open c \<and> nc_promise c = p) (calls s)) =
         length (filter (\<lambda>c. nc_open c \<and> nc_promise c = p) (close_call k (calls s))) +
         (if p = q then 1 else 0)"
proof (cases "p = q")
  case True
  with assms show ?thesis
    using filter_update_drop [of k "calls s" "\<lambda>c. nc_open c \<and> nc_promise c = p"
        "(calls s ! k)\<lparr>nc_open := False\<rparr>"]
    unfolding close_call_def open_call_def by simp
next
  case False
  with assms show ?thesis
    using filter_update_same [of k "calls s" "\<lambda>c. nc_open c \<and> nc_promise c = p"
        "(calls s ! k)\<lparr>nc_open := False\<rparr>"]
    unfolding close_call_def open_call_def by simp
qed

lemma armed_count_disarm:
  assumes "i < length (timers s)" "tm_armed (timers s ! i)"
  shows "length (filter (\<lambda>t. tm_armed t \<and> tm_promise t = p) (timers s)) =
         length (filter (\<lambda>t. tm_armed t \<and> tm_promise t = p)
                   ((timers s)[i := (timers s ! i)\<lparr>tm_armed := False\<rparr>])) +
         (if p = tm_promise (timers s ! i) then 1 else 0)"
proof (cases "p = tm_promise (timers s ! i)")
  case True
  with assms show ?thesis
    using filter_update_drop [of i "timers s" "\<lambda>t. tm_armed t \<and> tm_promise t = p"
        "(timers s ! i)\<lparr>tm_armed := False\<rparr>"]
    by simp
next
  case False
  with assms show ?thesis
    using filter_update_same [of i "timers s" "\<lambda>t. tm_armed t \<and> tm_promise t = p"
        "(timers s ! i)\<lparr>tm_armed := False\<rparr>"]
    by simp
qed

lemma consistent_work: "consistent s \<Longrightarrow> work p s = (if pending s p then 1 else 0)"
  by (simp add: consistent_def)

lemma consistent_marker: "consistent s \<Longrightarrow> promise s = Some p \<Longrightarrow> \<exists>k. open_call s k p Initial"
  by (simp add: consistent_def)

lemma consistent_waiters: "consistent s \<Longrightarrow> w \<in> set (waiters s) \<Longrightarrow> pending s (snd w)"
  by (simp add: consistent_def)

lemma consistentI:
  assumes "\<And>p. work p s = (if pending s p then 1 else 0)"
    and "\<And>p. promise s = Some p \<Longrightarrow> \<exists>k. open_call s k p Initial"
    and "\<And>w. w \<in> set (waiters s) \<Longrightarrow> pending s (snd w)"
  shows "consistent s"
  using assms unfolding consistent_def by blast

lemma open_call_pending:
  assumes "consistent s" "open_call s k q a"
  shows "pending s q"
proof (rule ccontr)
  assume "\<not> pending s q"
  with assms(1) have "work q s = 0" by (simp add: consistent_work)
  moreover from assms(2) have "0 < length (filter (\<lambda>c. nc_open c \<and> nc_promise c = q) (calls s))"
    unfolding open_call_def by (intro filter_nth_pos) auto
  ultimately show False by (simp add: work_def)
qed

lemma armed_timer_pending:
  assumes "consistent s" "i < length (timers s)" "tm_armed (timers s ! i)"
  shows "pending s (tm_promise (timers s ! i))"
proof (rule ccontr)
  assume "\<not> pending s (tm_promise (timers s ! i))"
  with assms(1) have "work (tm_promise (timers s ! i)) s = 0" by (simp add: consistent_work)
  moreover from assms(2,3)
  have "0 < length (filter (\<lambda>t. tm_armed t \<and> tm_promise t = tm_promise (timers s ! i)) (timers s))"
    by (intro filter_nth_pos) auto
  ultimately show False by (simp add: work_def)
qed

lemma marker_pending:
  assumes "consistent s" "promise s = Some p"
  shows "pending s p"
proof -
  from assms obtain k where "open_call s k p Initial"
    using consistent_marker by blast
  with assms(1) show ?thesis by (rule open_call_pending)
qed

lemma open_call_unique:
  assumes "consistent s" "open_call s k q a" "open_call s k' q a'"
  shows "k = k'"
proof (rule ccontr)
  assume ne: "k \<noteq> k'"
  let ?P = "\<lambda>c. nc_open c \<and> nc_promise c = q"
  have w: "work q s \<le> 1" using assms(1) by (simp add: consistent_work)
  have c1: "length (filter ?P (calls s)) = length (filter ?P (close_call k (calls s))) + 1"
    using open_count_close [OF assms(2), of q] by simp
  have "k' < length (close_call k (calls s))" "?P (close_call k (calls s) ! k')"
    using assms(3) ne by (auto simp: open_call_def close_call_def)
  then have "0 < length (filter ?P (close_call k (calls s)))"
    by (rule filter_nth_pos)
  with c1 w show False by (simp add: work_def)
qed

lemma fresh_promise_no_waiters:
  assumes "consistent s"
  shows "waiters_of (length (promises s)) s = []"
proof -
  have "snd w \<noteq> length (promises s)" if "w \<in> set (waiters s)" for w
    using consistent_waiters [OF assms that] by (auto simp: pending_def)
  then show ?thesis
    by (simp add: waiters_of_def filter_empty_conv)
qed

lemma consistent_start: "consistent (new_TokenStore opts toks t)"
  by (simp add: consistent_def new_TokenStore_def work_def pending_def)

lemma consistent_call:
  assumes "consistent s"
  shows "consistent (getAccessToken c s)"
proof (cases "now s < expires_at (tokens s)")
  case True
  with assms show ?thesis
    by (simp add: getAccessToken_valid consistent_def work_def pending_def open_call_def)
next
  case exp: False
  show ?thesis
  proof (cases "promise s")
    case None
    let ?p = "length (promises s)"
    let ?s' = "getAccessToken c s"
    have eq: "?s' = s\<lparr>promise := Some ?p,
       promises := promises s @ [Pending],
       waiters := waiters s @ [(c, ?p)],
       calls := calls s @ [\<lparr>nc_promise = ?p, nc_attempt = Initial,
                            nc_request = refresh_request (options s) (refresh_token (tokens s)),
                            nc_open = True\<rparr>],
       trace := trace s @ [Post (length (calls s)) (refresh_request (options s) (refresh_token (tokens s))),
                           SetPromise ?p]\<rparr>"
      using exp None by (simp add: getAccessToken_start)
    have w: "work q ?s' = work q s + (if q = ?p then 1 else 0)" for q
      unfolding eq by (simp add: work_def)
    have pe: "pending ?s' q = (pending s q \<or> q = ?p)" for q
      unfolding eq by (auto simp: pending_def nth_append)
    have np: "\<not> pending s ?p" by (simp add: pending_def)
    show ?thesis
    proof (rule consistentI)
      fix q show "work q ?s' = (if pending ?s' q then 1 else 0)"
        using consistent_work [OF assms, of q] np by (auto simp: w pe)
    next
      fix q assume "promise ?s' = Some q"
      then have "q = ?p" unfolding eq by simp
      moreover have "open_call ?s' (length (calls s)) ?p Initial"
        unfolding eq by (simp add: open_call_def)
      ultimately show "\<exists>k. open_call ?s' k q Initial" by blast
    next
      fix w assume "w \<in> set (waiters ?s')"
      then have "w \<in> set (waiters s) \<or> snd w = ?p" unfolding eq by auto
      then show "pending ?s' (snd w)"
        using consistent_waiters [OF assms, of w] by (auto simp: pe)
    qed
  next
    case (Some p)
    then have pp: "pending s p" using assms marker_pending by blast
    with exp Some have eq: "getAccessToken c s = s\<lparr>waiters := waiters s @ [(c, p)]\<rparr>"
      by (simp add: getAccessToken_join)
    show ?thesis
      using assms pp unfolding eq
      by (auto simp: consistent_def work_def pending_def open_call_def)
  qed
qed

lemma consistent_rescheduled:
  assumes c: "consistent s" and o: "open_call s k q Initial"
    and "calls s' = close_call k (calls s)"
    and "timers s' = timers s @ [\<lparr>tm_due = d, tm_promise = q, tm_armed = True\<rparr>]"
    and "promises s' = promises s" and "promise s' = None" and "waiters s' = waiters s"
  shows "consistent s'"
proof -
  have "work p s' = work p s" for p
    using open_count_close [OF o, of p] assms(3,4) by (simp add: work_def)
  moreover have "pending s' p = pending s p" for p
    using assms(5) by (simp add: pending_def)
  ultimately show ?thesis
    using c assms(6,7) by (simp add: consistent_def)
qed

lemma consistent_settled:
  assumes c: "consistent s" and o: "open_call s k q a"
    and cs: "calls s' = close_call k (calls s)"
    and ts: "timers s' = timers s"
    and ps: "promises s' = (promises s)[q := st]" and st: "st \<noteq> Pending"
    and m: "promise s' = None \<or> (a = Retry \<and> promise s' = promise s)"
    and ws: "waiters s' = filter (\<lambda>w. snd w \<noteq> q) (waiters s)"
  shows "consistent s'"
proof (rule consistentI)
  have pq: "pending s q" using c o by (rule open_call_pending)
  have w: "work p s = work p s' + (if p = q then 1 else 0)" for p
    using open_count_close [OF o, of p] cs ts by (simp add: work_def)
  have pe: "pending s' p = (pending s p \<and> p \<noteq> q)" for p
    using ps st by (cases "p = q") (auto simp: pending_def)
  show "work p s' = (if pending s' p then 1 else 0)" for p
    using w [of p] consistent_work [OF c, of p] pq by (auto simp: pe)
  show "\<exists>k'. open_call s' k' p Initial" if mp: "promise s' = Some p" for p
  proof -
    from m mp have r: "a = Retry" and m': "promise s = Some p" by auto
    from c m' obtain k' where k': "open_call s k' p Initial"
      using consistent_marker by blast
    have "k' \<noteq> k" using k' o r by (auto simp: open_call_def)
    with k' cs have "open_call s' k' p Initial"
      by (simp add: open_call_def close_call_def)
    then show ?thesis ..
  qed
  show "pending s' (snd w)" if "w \<in> set (waiters s')" for w
    using that consistent_waiters [OF c, of w] by (simp add: ws pe)
qed

lemma consistent_timeout:
  assumes c: "consistent s"
  shows "consistent (timeout i s)"
proof (cases "i < length (timers s) \<and> tm_armed (timers s ! i) \<and> tm_due (timers s ! i) \<le> now s")
  case False
  then have "timeout i s = s" by (rule timeout_ignored)
  with c show ?thesis by simp
next
  case True
  let ?q = "tm_promise (timers s ! i)"
  let ?s' = "timeout i s"
  have eq: "?s' = s\<lparr>timers := (timers s)[i := (timers s ! i)\<lparr>tm_armed := False\<rparr>],
       calls := calls s @ [\<lparr>nc_promise = ?q, nc_attempt = Retry,
                            nc_request = refresh_request (options s) (refresh_token (tokens s)),
                            nc_open = True\<rparr>],
       trace := trace s @ [Post (length (calls s)) (refresh_request (options s) (refresh_token (tokens s)))]\<rparr>"
    using True by (simp add: timeout_due)
  have pe: "pending ?s' p = pending s p" for p
    unfolding eq by (simp add: pending_def)
  show ?thesis
  proof (rule consistentI)
    have "work p ?s' = work p s" for p
      using armed_count_disarm [of i s p] True unfolding eq by (simp add: work_def)
    then show "work p ?s' = (if pending ?s' p then 1 else 0)" for p
      using consistent_work [OF c, of p] by (simp add: pe)
    show "\<exists>k. open_call ?s' k p Initial" if "promise ?s' = Some p" for p
    proof -
      from that have "promise s = Some p" unfolding eq by simp
      with c obtain k where "open_call s k p Initial" using consistent_marker by blast
      then have "open_call ?s' k p Initial" unfolding eq by (simp add: open_call_def nth_append)
      then show ?thesis ..
    qed
    show "pending ?s' (snd w)" if "w \<in> set (waiters ?s')" for w
    proof -
      from that have "w \<in> set (waiters s)" unfolding eq by simp
      with c show ?thesis by (simp add: pe consistent_waiters)
    qed
  qed
qed

lemma consistent_response:
  assumes c: "consistent s"
  shows "consistent (response k r s)"
proof (cases "k < length (calls s) \<and> nc_open (calls s ! k)")
  case False
  then have "response k r s = s" by (rule response_ignored)
  with c show ?thesis by simp
next
  case True
  define q where "q = nc_promise (calls s ! k)"
  define a where "a = nc_attempt (calls s ! k)"
  have o: "open_call s k q a" using True by (simp add: open_call_def q_def a_def)
  have pq: "pending s q" using c o by (rule open_call_pending)
  show ?thesis
  proof (cases a)
    case Initial
    note o' = o [unfolded Initial]
    show ?thesis
    proof (cases r)
      case (Inl e)
      show ?thesis unfolding Inl
        by (rule consistent_rescheduled [OF c o']) (simp_all add: response_initial_fail [OF o'])
    next
      case (Inr data)
      show ?thesis
      proof (cases "throws s (getNewAccessToken data (now s))")
        case True
        show ?thesis unfolding Inr
          by (rule consistent_rescheduled [OF c o'])
             (simp_all add: response_initial_throw [OF o' True])
      next
        case False
        show ?thesis unfolding Inr
          by (rule consistent_settled [OF c o', where st = Fulfilled])
             (simp_all add: response_initial_ok [OF o' False pq])
      qed
    qed
  next
    case Retry
    note o' = o [unfolded Retry]
    show ?thesis
    proof (cases r)
      case (Inl e)
      show ?thesis unfolding Inl
        by (rule consistent_settled [OF c o', where st = "Rejected refresh_failed"])
           (simp_all add: response_retry_fail [OF o' pq])
    next
      case (Inr data)
      show ?thesis
      proof (cases "throws s (getNewAccessToken data (now s))")
        case True
        show ?thesis unfolding Inr
          by (rule consistent_settled [OF c o', where st = "Rejected refresh_failed"])
             (simp_all add: response_retry_throw [OF o' True pq])
      next
        case False
        show ?thesis unfolding Inr
          by (rule consistent_settled [OF c o', where st = Fulfilled])
             (simp_all add: response_retry_ok [OF o' False pq])
      qed
    qed
  qed
qed

lemma consistent_step:
  assumes "consistent s"
  shows "consistent (step s e)"
proof (cases e)
  case (Call c)
  with assms show ?thesis by (simp add: consistent_call)
next
  case (OnRefresh cb)
  with assms show ?thesis
    by (simp add: onRefreshToken_def consistent_def work_def pending_def open_call_def)
next
  case (Response k r)
  with assms show ?thesis by (simp add: consistent_response)
next
  case (Timeout i)
  with assms show ?thesis by (simp add: consistent_timeout)
next
  case (Tick d)
  with assms show ?thesis
    by (simp add: consistent_def work_def pending_def open_call_def)
qed

lemma reachable_consistent: "reachable s \<Longrightarrow> consistent s"
  by (induction rule: reachable.induct) (simp_all add: consistent_start consistent_step)

lemma reachable_run: "reachable s \<Longrightarrow> reachable (run s es)"
  unfolding run_def by (induction es arbitrary: s) (simp_all add: reachable.after)

lemma run_Nil [simp]: "run s [] = s"
  by (simp add: run_def)

lemma run_Cons [simp]: "run s (e # es) = run (step s e) es"
  by (simp add: run_def)

lemma run_append: "run s (es @ es') = run (run s es) es'"
  by (simp add: run_def)

section \<open>Further facts about single steps\<close>

lemma tokens_settle [simp]: "tokens (settle p st s) = tokens s"
  by (simp add: settle_def)

lemma tokens_response:
  "tokens (response k r s) = tokens s \<or>
   (\<exists>data. r = Inr data \<and> tokens (response k r s) = getNewAccessToken data (now s))"
proof (cases "k < length (calls s) \<and> nc_open (calls s ! k)")
  case False
  then show ?thesis by (simp add: response_ignored)
next
  case True
  show ?thesis
  proof (cases r)
    case (Inl e)
    with True show ?thesis
      by (simp add: response_def Let_def finally_handler_def catch_handler_def setTimeout_def
          emit_def retry_catch_handler_def reject_def split: attempt.split)
  next
    case (Inr data)
    with True have "tokens (response k r s) = getNewAccessToken data (now s)"
      by (simp add: response_def Let_def finally_handler_def catch_handler_def setTimeout_def
          emit_def retry_catch_handler_def reject_def resolve_def then_handler_def setTokens_eq
          split: attempt.split)
    with Inr show ?thesis by simp
  qed
qed

lemma tokens_step:
  "tokens (step s e) = tokens s \<or>
   (\<exists>k data. e = Response k (Inr data) \<and> tokens (step s e) = getNewAccessToken data (now s))"
proof (cases e)
  case (Call c)
  then show ?thesis
    by (simp add: getAccessToken_def refreshToken_def await_def emit_def Let_def
        getNewAccessToken_post_def split: option.split pstate.split)
next
  case (OnRefresh cb)
  then show ?thesis by (simp add: onRefreshToken_def)
next
  case (Response k r)
  then show ?thesis using tokens_response [of k r s] by auto
next
  case (Timeout i)
  then show ?thesis by (simp add: timeout_def Let_def getNewAccessToken_post_def)
next
  case (Tick d)
  then show ?thesis by simp
qed

text \<open>
  A response with data, in a reachable state: the assignment, then the callback, then
  effects among which there is no further invocation of the callback.
\<close>

lemma response_data_trace:
  assumes c: "consistent s" and o: "open_call s k p a"
  shows "\<exists>rest. trace (response k (Inr data) s) =
           trace s @ Assign (getNewAccessToken data (now s)) #
                     notify s (getNewAccessToken data (now s)) @ rest \<and>
         notifications rest = []"
proof -
  have pp: "pending s p" using c o by (rule open_call_pending)
  show ?thesis
  proof (cases a)
    case Initial
    note o' = o [unfolded Initial]
    show ?thesis
    proof (cases "throws s (getNewAccessToken data (now s))")
      case True
      show ?thesis
        by (rule exI [of _ "[ConsoleError ''Failed to refresh access token, trying again...'',
                             SetTimeout (length (timers s)) 1000, ClearPromise]"])
           (simp add: response_initial_throw [OF o' True])
    next
      case False
      show ?thesis
        by (rule exI [of _ "Resolve p # returns p (Value (access_token data)) s @ [ClearPromise]"])
           (simp add: response_initial_ok [OF o' False pp])
    qed
  next
    case Retry
    note o' = o [unfolded Retry]
    show ?thesis
    proof (cases "throws s (getNewAccessToken data (now s))")
      case True
      show ?thesis
        by (rule exI [of _ "Reject p refresh_failed # returns p (Thrown refresh_failed) s"])
           (simp add: response_retry_throw [OF o' True pp])
    next
      case False
      show ?thesis
        by (rule exI [of _ "Resolve p # returns p (Value (access_token data)) s"])
           (simp add: response_retry_ok [OF o' False pp])
    qed
  qed
qed

lemma response_data_notifications:
  assumes "consistent s" "open_call s k p a"
  shows "notifications (emitted s (response k (Inr data) s)) =
           (case onTokensRefreshedCallback s of
              None \<Rightarrow> []
            | Some cb \<Rightarrow> [(cb_id cb, getNewAccessToken data (now s))])"
proof -
  from response_data_trace [OF assms, of data] obtain rest where
    "trace (response k (Inr data) s) =
       trace s @ Assign (getNewAccessToken data (now s)) #
                 notify s (getNewAccessToken data (now s)) @ rest"
    "notifications rest = []" by blast
  then show ?thesis
    by (simp add: notifications_notify)
qed

lemmas example_defs =
  example_store_def example_options_def example_data_def example_request_def
  new_TokenStore_def getNewAccessToken_def refresh_request_def joined_scopes_def
  quiet_callback_def picky_callback_def refresh_failed_def network_error_def

lemmas operation_defs =
  getAccessToken_def accessTokenExpired_def refreshToken_def await_def pstatus_def
  getNewAccessToken_post_def getRefreshToken_def emit_def response_def then_handler_def
  setTokens_def resolve_def reject_def settle_def resumed_def waiters_of_def
  catch_handler_def retry_catch_handler_def finally_handler_def setTimeout_def timeout_def
  onRefreshToken_def Let_def

lemma reachable_example: "reachable (run example_store es)"
  unfolding example_store_def by (intro reachable_run reachable.start)

section \<open>Runs of calls and ticks\<close>

lemma list_all_quiet_Cons: "list_all quiet (e # es) \<Longrightarrow> quiet e \<and> list_all quiet es"
  by simp

lemma quiet_cases:
  assumes "quiet e"
  obtains c where "e = Call c" | d where "e = Tick d"
  using assms by (cases e) simp_all

lemma run_quiet_join:
  "pending s p \<Longrightarrow> promise s = Some p \<Longrightarrow> expires_at (tokens s) \<le> now s \<Longrightarrow>
   list_all quiet es \<Longrightarrow>
   run s es = s\<lparr>now := now s + int (ticks es),
                waiters := waiters s @ map (\<lambda>c. (c, p)) (callers es)\<rparr>"
proof (induction es arbitrary: s)
  case Nil
  then show ?case by simp
next
  case (Cons e es)
  from Cons.prems(4) have q: "quiet e" and qs: "list_all quiet es" by simp_all
  from q show ?case
  proof (cases rule: quiet_cases)
    case (1 c)
    let ?s' = "s\<lparr>waiters := waiters s @ [(c, p)]\<rparr>"
    have st: "step s e = ?s'"
      using Cons.prems(1,2,3) 1 by (simp add: getAccessToken_join)
    have "run ?s' es = ?s'\<lparr>now := now ?s' + int (ticks es),
                waiters := waiters ?s' @ map (\<lambda>c. (c, p)) (callers es)\<rparr>"
      using Cons.prems(1,2,3) qs by (intro Cons.IH) (simp_all add: pending_def)
    then show ?thesis
      using 1 st by simp
  next
    case (2 d)
    let ?s' = "s\<lparr>now := now s + int d\<rparr>"
    have st: "step s e = ?s'" using 2 by simp
    have "run ?s' es = ?s'\<lparr>now := now ?s' + int (ticks es),
                waiters := waiters ?s' @ map (\<lambda>c. (c, p)) (callers es)\<rparr>"
      using Cons.prems(1,2,3) qs by (intro Cons.IH) (simp_all add: pending_def)
    then show ?thesis
      using 2 st by (simp add: add.assoc)
  qed
qed

lemma run_quiet_start:
  "promise s = None \<Longrightarrow> expires_at (tokens s) \<le> now s \<Longrightarrow>
   list_all quiet es \<Longrightarrow> callers es \<noteq> [] \<Longrightarrow>
   run s es =
     s\<lparr>now := now s + int (ticks es),
       promise := Some (length (promises s)),
       promises := promises s @ [Pending],
       waiters := waiters s @ map (\<lambda>c. (c, length (promises s))) (callers es),
       calls := calls s @
          [\<lparr>nc_promise = length (promises s), nc_attempt = Initial,
            nc_request = refresh_request (options s) (refresh_token (tokens s)),
            nc_open = True\<rparr>],
       trace := trace s @
          [Post (length (calls s)) (refresh_request (options s) (refresh_token (tokens s))),
           SetPromise (length (promises s))]\<rparr>"
proof (induction es arbitrary: s)
  case Nil
  then show ?case by simp
next
  case (Cons e es)
  from Cons.prems(3) have q: "quiet e" and qs: "list_all quiet es" by simp_all
  from q show ?case
  proof (cases rule: quiet_cases)
    case (1 c)
    let ?p = "length (promises s)"
    let ?s' = "s\<lparr>promise := Some ?p,
       promises := promises s @ [Pending],
       waiters := waiters s @ [(c, ?p)],
       calls := calls s @ [\<lparr>nc_promise = ?p, nc_attempt = Initial,
                            nc_request = refresh_request (options s) (refresh_token (tokens s)),
                            nc_open = True\<rparr>],
       trace := trace s @ [Post (length (calls s)) (refresh_request (options s) (refresh_token (tokens s))),
                           SetPromise ?p]\<rparr>"
    have st: "step s e = ?s'"
      using Cons.prems(1,2) 1 by (simp add: getAccessToken_start)
    have "run ?s' es = ?s'\<lparr>now := now ?s' + int (ticks es),
                waiters := waiters ?s' @ map (\<lambda>c. (c, ?p)) (callers es)\<rparr>"
      using Cons.prems(2) qs by (intro run_quiet_join) (simp_all add: pending_def)
    then show ?thesis
      using 1 st by simp
  next
    case (2 d)
    let ?s' = "s\<lparr>now := now s + int d\<rparr>"
    have st: "step s e = ?s'" using 2 by simp
    have "callers es \<noteq> []" using Cons.prems(4) 2 by simp
    then have "run ?s' es = ?s'\<lparr>now := now ?s' + int (ticks es),
       promise := Some (length (promises ?s')),
       promises := promises ?s' @ [Pending],
       waiters := waiters ?s' @ map (\<lambda>c. (c, length (promises ?s'))) (callers es),
       calls := calls ?s' @
          [\<lparr>nc_promise = length (promises ?s'), nc_attempt = Initial,
            nc_request = refresh_request (options ?s') (refresh_token (tokens ?s')),
            nc_open = True\<rparr>],
       trace := trace ?s' @
          [Post (length (calls ?s')) (refresh_request (options ?s') (refresh_token (tokens ?s'))),
           SetPromise (length (promises ?s'))]\<rparr>"
      using Cons.prems(1,2) qs by (intro Cons.IH) simp_all
    then show ?thesis
      using 2 st by (simp add: add.assoc)
  qed
qed

text \<open>
  A response either settles the promise of its call, and then every caller that waits for
  that promise gets one and the same outcome, or it returns nothing to anybody and the
  callers keep waiting.
\<close>

lemma response_common_outcome:
  assumes c: "consistent s" and o: "open_call s k p a"
  shows "(\<exists>out. returned (emitted s (response k r s)) = map (\<lambda>c. (c, out)) (waiters_of p s)) \<or>
         (returned (emitted s (response k r s)) = [] \<and>
          waiters (response k r s) = waiters s)"
proof -
  have pp: "pending s p" using c o by (rule open_call_pending)
  show ?thesis
  proof (cases a)
    case Initial
    note o' = o [unfolded Initial]
    show ?thesis
    proof (cases r)
      case (Inl e)
      then show ?thesis by (simp add: response_initial_fail [OF o'])
    next
      case (Inr data)
      show ?thesis
      proof (cases "throws s (getNewAccessToken data (now s))")
        case True
        then show ?thesis unfolding Inr by (simp add: response_initial_throw [OF o' True])
      next
        case False
        then show ?thesis unfolding Inr by (simp add: response_initial_ok [OF o' False pp])
      qed
    qed
  next
    case Retry
    note o' = o [unfolded Retry]
    show ?thesis
    proof (cases r)
      case (Inl e)
      then show ?thesis by (simp add: response_retry_fail [OF o' pp])
    next
      case (Inr data)
      show ?thesis
      proof (cases "throws s (getNewAccessToken data (now s))")
        case True
        then show ?thesis unfolding Inr by (simp add: response_retry_throw [OF o' True pp])
      next
        case False
        then show ?thesis unfolding Inr by (simp add: response_retry_ok [OF o' False pp])
      qed
    qed
  qed
qed

section \<open>The course of one refresh\<close>

lemma length_close_call [simp]: "length (close_call k cs) = length cs"
  by (simp add: close_call_def)

lemma close_call_last [simp]:
  "close_call (length cs) (cs @ [c]) = cs @ [c\<lparr>nc_open := False\<rparr>]"
  by (simp add: close_call_def)

lemma open_call_last:
  "calls s = cs @ [\<lparr>nc_promise = p, nc_attempt = a, nc_request = rq, nc_open = True\<rparr>] \<Longrightarrow>
   open_call s (length cs) p a"
  by (simp add: open_call_def)

text \<open>Once the delay of an armed timer has passed, the timer fires and posts the retry,
  with the refresh token stored at that moment; before that it does not fire.\<close>

lemma retry_posted_after_delay:
  assumes "timers s = ts @ [\<lparr>tm_due = due, tm_promise = p, tm_armed = True\<rparr>]"
    and "due \<le> now s + int d"
  shows "run s [Tick d, Timeout (length ts)] =
           s\<lparr>now := now s + int d,
             timers := ts @ [\<lparr>tm_due = due, tm_promise = p, tm_armed = False\<rparr>],
             calls := calls s @
               [\<lparr>nc_promise = p, nc_attempt = Retry,
                 nc_request = refresh_request (options s) (refresh_token (tokens s)),
                 nc_open = True\<rparr>],
             trace := trace s @
               [Post (length (calls s)) (refresh_request (options s) (refresh_token (tokens s)))]\<rparr>"
  using assms by (simp add: timeout_due)

lemma retry_not_posted_before_delay:
  assumes "timers s = ts @ [\<lparr>tm_due = due, tm_promise = p, tm_armed = True\<rparr>]"
    and "now s + int d < due"
  shows "run s [Tick d, Timeout (length ts)] = s\<lparr>now := now s + int d\<rparr>"
  using assms by (simp add: timeout_ignored)

lemma first_failure_then_retry:
  assumes o: "open_call s k p Initial" and d: "1000 \<le> d"
  shows "run s [Response k (Inl e), Tick d, Timeout (length (timers s))] =
           s\<lparr>now := now s + int d,
             promise := None,
             calls := close_call k (calls s) @
               [\<lparr>nc_promise = p, nc_attempt = Retry,
                 nc_request = refresh_request (options s) (refresh_token (tokens s)),
                 nc_open = True\<rparr>],
             timers := timers s @ [\<lparr>tm_due = now s + 1000, tm_promise = p, tm_armed = False\<rparr>],
             trace := trace s @
               [ConsoleError ''Failed to refresh access token, trying again...'',
                SetTimeout (length (timers s)) 1000, ClearPromise,
                Post (length (calls s)) (refresh_request (options s) (refresh_token (tokens s)))]\<rparr>"
proof -
  let ?s1 = "response k (Inl e) s"
  have t: "timers ?s1 = timers s @ [\<lparr>tm_due = now s + 1000, tm_promise = p, tm_armed = True\<rparr>]"
    and n: "now s + 1000 \<le> now ?s1 + int d"
    using d by (simp_all add: response_initial_fail [OF o])
  have "run s [Response k (Inl e), Tick d, Timeout (length (timers s))] =
        run ?s1 [Tick d, Timeout (length (timers s))]"
    by simp
  also have "\<dots> = ?s1\<lparr>now := now ?s1 + int d,
             timers := timers s @ [\<lparr>tm_due = now s + 1000, tm_promise = p, tm_armed = False\<rparr>],
             calls := calls ?s1 @
               [\<lparr>nc_promise = p, nc_attempt = Retry,
                 nc_request = refresh_request (options ?s1) (refresh_token (tokens ?s1)),
                 nc_open = True\<rparr>],
             trace := trace ?s1 @
               [Post (length (calls ?s1)) (refresh_request (options ?s1) (refresh_token (tokens ?s1)))]\<rparr>"
    by (rule retry_posted_after_delay [OF t n])
  also have "\<dots> = s\<lparr>now := now s + int d,
             promise := None,
             calls := close_call k (calls s) @
               [\<lparr>nc_promise = p, nc_attempt = Retry,
                 nc_request = refresh_request (options s) (refresh_token (tokens s)),
                 nc_open = True\<rparr>],
             timers := timers s @ [\<lparr>tm_due = now s + 1000, tm_promise = p, tm_armed = False\<rparr>],
             trace := trace s @
               [ConsoleError ''Failed to refresh access token, trying again...'',
                SetTimeout (length (timers s)) 1000, ClearPromise,
                Post (length (calls s)) (refresh_request (options s) (refresh_token (tokens s)))]\<rparr>"
    by (simp add: response_initial_fail [OF o])
  finally show ?thesis .
qed

lemma throw_then_retry:
  assumes o: "open_call s k p Initial" and d: "1000 \<le> d"
    and th: "throws s (getNewAccessToken data (now s))"
  shows "run s [Response k (Inr data), Tick d, Timeout (length (timers s))] =
           s\<lparr>now := now s + int d,
             tokens := getNewAccessToken data (now s),
             promise := None,
             calls := close_call k (calls s) @
               [\<lparr>nc_promise = p, nc_attempt = Retry,
                 nc_request = refresh_request (options s) (refresh_token data),
                 nc_open = True\<rparr>],
             timers := timers s @ [\<lparr>tm_due = now s + 1000, tm_promise = p, tm_armed = False\<rparr>],
             trace := trace s @
               Assign (getNewAccessToken data (now s)) #
               notify s (getNewAccessToken data (now s)) @
               [ConsoleError ''Failed to refresh access token, trying again...'',
                SetTimeout (length (timers s)) 1000, ClearPromise,
                Post (length (calls s)) (refresh_request (options s) (refresh_token data))]\<rparr>"
proof -
  let ?s1 = "response k (Inr data) s"
  have t: "timers ?s1 = timers s @ [\<lparr>tm_due = now s + 1000, tm_promise = p, tm_armed = True\<rparr>]"
    and n: "now s + 1000 \<le> now ?s1 + int d"
    using d by (simp_all add: response_initial_throw [OF o th])
  have rt: "refresh_token (getNewAccessToken data (now s)) = refresh_token data"
    by (simp add: getNewAccessToken_def)
  have "run s [Response k (Inr data), Tick d, Timeout (length (timers s))] =
        run ?s1 [Tick d, Timeout (length (timers s))]"
    by simp
  also have "\<dots> = ?s1\<lparr>now := now ?s1 + int d,
             timers := timers s @ [\<lparr>tm_due = now s + 1000, tm_promise = p, tm_armed = False\<rparr>],
             calls := calls ?s1 @
               [\<lparr>nc_promise = p, nc_attempt = Retry,
                 nc_request = refresh_request (options ?s1) (refresh_token (tokens ?s1)),
                 nc_open = True\<rparr>],
             trace := trace ?s1 @
               [Post (length (calls ?s1)) (refresh_request (options ?s1) (refresh_token (tokens ?s1)))]\<rparr>"
    by (rule retry_posted_after_delay [OF t n])
  also have "\<dots> = s\<lparr>now := now s + int d,
             tokens := getNewAccessToken data (now s),
             promise := None,
             calls := close_call k (calls s) @
               [\<lparr>nc_promise = p, nc_attempt = Retry,
                 nc_request = refresh_request (options s) (refresh_token data),
                 nc_open = True\<rparr>],
             timers := timers s @ [\<lparr>tm_due = now s + 1000, tm_promise = p, tm_armed = False\<rparr>],
             trace := trace s @
               Assign (getNewAccessToken data (now s)) #
               notify s (getNewAccessToken data (now s)) @
               [ConsoleError ''Failed to refresh access token, trying again...'',
                SetTimeout (length (timers s)) 1000, ClearPromise,
                Post (length (calls s)) (refresh_request (options s) (refresh_token data))]\<rparr>"
    by (simp add: response_initial_throw [OF o th] rt)
  finally show ?thesis .
qed




lemma quiet_calls [simp]:
  "list_all quiet (map Call cs)" "callers (map Call cs) = cs" "ticks (map Call cs) = 0"
  by (induction cs) simp_all

lemma waiters_of_append:
  "waiters s' = waiters s @ map (\<lambda>c. (c, p)) cs \<Longrightarrow> waiters_of p s' = waiters_of p s @ cs"
  by (simp add: waiters_of_def filter_map o_def)

text \<open>
  The whole course of a refresh whose two network calls fail, from a reachable state with
  an expired token and an empty \<open>_promise\<close>: caller \<open>c\<close> starts it, the callers \<open>cs\<close> join,
  the first attempt fails, the delay passes, the timer fires and the retry fails.
\<close>

lemma exhausted_refresh:
  assumes r: "reachable s" and m: "promise s = None" and x: "expires_at (tokens s) \<le> now s"
    and d: "1000 \<le> d"
  shows "run s (Call c # map Call cs @
                [Response (length (calls s)) (Inl e1), Tick d, Timeout (length (timers s)),
                 Response (Suc (length (calls s))) (Inl e2)]) =
         s\<lparr>now := now s + int d,
           promises := promises s @ [Rejected refresh_failed],
           calls := calls s @
             [\<lparr>nc_promise = length (promises s), nc_attempt = Initial,
               nc_request = refresh_request (options s) (refresh_token (tokens s)),
               nc_open = False\<rparr>,
              \<lparr>nc_promise = length (promises s), nc_attempt = Retry,
               nc_request = refresh_request (options s) (refresh_token (tokens s)),
               nc_open = False\<rparr>],
           timers := timers s @
             [\<lparr>tm_due = now s + 1000, tm_promise = length (promises s), tm_armed = False\<rparr>],
           trace := trace s @
             [Post (length (calls s)) (refresh_request (options s) (refresh_token (tokens s))),
              SetPromise (length (promises s)),
              ConsoleError ''Failed to refresh access token, trying again...'',
              SetTimeout (length (timers s)) 1000, ClearPromise,
              Post (Suc (length (calls s))) (refresh_request (options s) (refresh_token (tokens s))),
              Reject (length (promises s)) refresh_failed] @
             map (\<lambda>c. Return c (Thrown refresh_failed)) (c # cs)\<rparr>"
proof -
  let ?k = "length (calls s)" and ?p = "length (promises s)" and ?i = "length (timers s)"
  let ?rq = "refresh_request (options s) (refresh_token (tokens s))"
  let ?c0 = "\<lparr>nc_promise = ?p, nc_attempt = Initial, nc_request = ?rq, nc_open = True\<rparr>"
  define sa where "sa = run s (Call c # map Call cs)"
  have sa: "sa = s\<lparr>promise := Some ?p,
               promises := promises s @ [Pending],
               waiters := waiters s @ map (\<lambda>c. (c, ?p)) (c # cs),
               calls := calls s @ [?c0],
               trace := trace s @ [Post ?k ?rq, SetPromise ?p]\<rparr>"
    unfolding sa_def
    using run_quiet_start [OF m x, of "Call c # map Call cs"] by simp
  have oa: "open_call sa ?k ?p Initial"
    by (rule open_call_last) (simp add: sa)
  define sb where "sb = run sa [Response ?k (Inl e1), Tick d, Timeout ?i]"
  have ta: "length (timers sa) = ?i" by (simp add: sa)
  have sb: "sb = s\<lparr>now := now s + int d,
             promise := None,
             promises := promises s @ [Pending],
             waiters := waiters s @ map (\<lambda>c. (c, ?p)) (c # cs),
             calls := calls s @ [?c0\<lparr>nc_open := False\<rparr>,
               \<lparr>nc_promise = ?p, nc_attempt = Retry, nc_request = ?rq, nc_open = True\<rparr>],
             timers := timers s @ [\<lparr>tm_due = now s + 1000, tm_promise = ?p, tm_armed = False\<rparr>],
             trace := trace s @
               [Post ?k ?rq, SetPromise ?p,
                ConsoleError ''Failed to refresh access token, trying again...'',
                SetTimeout ?i 1000, ClearPromise, Post (Suc ?k) ?rq]\<rparr>"
    unfolding sb_def using first_failure_then_retry [OF oa d, of e1]
    unfolding ta by (simp add: sa)
  have ob: "open_call sb (Suc ?k) ?p Retry"
    using open_call_last [of sb "calls s @ [?c0\<lparr>nc_open := False\<rparr>]" ?p Retry ?rq]
    by (simp add: sb)
  have pb: "pending sb ?p" by (simp add: sb pending_def)
  have "waiters_of ?p s = []"
    using r by (intro fresh_promise_no_waiters reachable_consistent)
  then have wb: "waiters_of ?p sb = c # cs"
    using waiters_of_append [of sb s ?p "c # cs"] by (simp add: sb)
  have fb: "filter (\<lambda>w. snd w \<noteq> ?p) (waiters sb) = waiters s"
  proof -
    have "snd w \<noteq> ?p" if "w \<in> set (waiters s)" for w
      using consistent_waiters [OF reachable_consistent [OF r] that] by (auto simp: pending_def)
    then have "filter (\<lambda>w. snd w \<noteq> ?p) (waiters s) = waiters s"
      by (simp add: filter_id_conv)
    then show ?thesis by (simp add: sb o_def)
  qed
  have "run s (Call c # map Call cs @
                [Response ?k (Inl e1), Tick d, Timeout ?i, Response (Suc ?k) (Inl e2)])
        = response (Suc ?k) (Inl e2) sb"
    using run_append [of s "Call c # map Call cs"
            "[Response ?k (Inl e1), Tick d, Timeout ?i, Response (Suc ?k) (Inl e2)]"]
    by (simp add: sa_def sb_def)
  also have "\<dots> = sb\<lparr>promises := (promises sb)[?p := Rejected refresh_failed],
       waiters := filter (\<lambda>w. snd w \<noteq> ?p) (waiters sb),
       calls := close_call (Suc ?k) (calls sb),
       trace := trace sb @ Reject ?p refresh_failed # returns ?p (Thrown refresh_failed) sb\<rparr>"
    by (rule response_retry_fail [OF ob pb])
  also have "\<dots> = s\<lparr>now := now s + int d,
           promises := promises s @ [Rejected refresh_failed],
           calls := calls s @
             [\<lparr>nc_promise = ?p, nc_attempt = Initial, nc_request = ?rq, nc_open = False\<rparr>,
              \<lparr>nc_promise = ?p, nc_attempt = Retry, nc_request = ?rq, nc_open = False\<rparr>],
           timers := timers s @ [\<lparr>tm_due = now s + 1000, tm_promise = ?p, tm_armed = False\<rparr>],
           trace := trace s @
             [Post ?k ?rq, SetPromise ?p,
              ConsoleError ''Failed to refresh access token, trying again...'',
              SetTimeout ?i 1000, ClearPromise, Post (Suc ?k) ?rq,
              Reject ?p refresh_failed] @
             map (\<lambda>c. Return c (Thrown refresh_failed)) (c # cs)\<rparr>"
    unfolding fb returns_def wb
    using close_call_last [of "calls s @ [?c0\<lparr>nc_open := False\<rparr>]"
            "\<lparr>nc_promise = ?p, nc_attempt = Retry, nc_request = ?rq, nc_open = True\<rparr>"] m
    by (simp add: sb)
  finally show ?thesis .
qed

lemma throws_cong:
  "onTokensRefreshedCallback s' = onTokensRefreshedCallback s \<Longrightarrow> throws s' t = throws s t"
  by (simp add: throws_def)

lemma notify_cong:
  "onTokensRefreshedCallback s' = onTokensRefreshedCallback s \<Longrightarrow> notify s' t = notify s t"
  by (simp add: notify_def)

lemma returns_cong:
  "waiters s' = waiters s \<Longrightarrow> returns p out s' = returns p out s"
  by (simp add: returns_def waiters_of_def)

lemma tokens_response_data:
  "open_call s k p a \<Longrightarrow> tokens (response k (Inr data) s) = getNewAccessToken data (now s)"
  by (simp add: open_call_def response_def Let_def finally_handler_def catch_handler_def
      setTimeout_def emit_def retry_catch_handler_def reject_def resolve_def then_handler_def
      setTokens_eq split: attempt.split)

text \<open>The first network call fails, the delay passes, the timer fires, and the retry
  succeeds with a callback that returns.\<close>

lemma failure_then_retry_success:
  assumes c: "consistent s" and o: "open_call s k p Initial" and d: "1000 \<le> d"
    and nt: "\<not> throws s (getNewAccessToken data (now s + int d))"
  shows "run s [Response k (Inl e), Tick d, Timeout (length (timers s)),
                Response (length (calls s)) (Inr data)] =
           s\<lparr>now := now s + int d,
             tokens := getNewAccessToken data (now s + int d),
             promise := None,
             promises := (promises s)[p := Fulfilled],
             waiters := filter (\<lambda>w. snd w \<noteq> p) (waiters s),
             calls := close_call k (calls s) @
               [\<lparr>nc_promise = p, nc_attempt = Retry,
                 nc_request = refresh_request (options s) (refresh_token (tokens s)),
                 nc_open = False\<rparr>],
             timers := timers s @ [\<lparr>tm_due = now s + 1000, tm_promise = p, tm_armed = False\<rparr>],
             trace := trace s @
               [ConsoleError ''Failed to refresh access token, trying again...'',
                SetTimeout (length (timers s)) 1000, ClearPromise,
                Post (length (calls s)) (refresh_request (options s) (refresh_token (tokens s))),
                Assign (getNewAccessToken data (now s + int d))] @
               notify s (getNewAccessToken data (now s + int d)) @
               Resolve p # returns p (Value (access_token data)) s\<rparr>"
proof -
  let ?rq = "refresh_request (options s) (refresh_token (tokens s))"
  let ?t = "getNewAccessToken data (now s + int d)"
  define sb where "sb = run s [Response k (Inl e), Tick d, Timeout (length (timers s))]"
  note sb = first_failure_then_retry [OF o d, of e, folded sb_def]
  have pp: "pending s p" using c o by (rule open_call_pending)
  have ob: "open_call sb (length (calls s)) p Retry"
    using open_call_last [of sb "close_call k (calls s)" p Retry ?rq] by (simp add: sb)
  have pb: "pending sb p" using pp by (simp add: sb pending_def)
  have nb: "now sb = now s + int d" by (simp add: sb)
  have tb: "\<not> throws sb (getNewAccessToken data (now sb))"
    unfolding nb using nt throws_cong [of sb s] by (simp add: sb)
  have "run s [Response k (Inl e), Tick d, Timeout (length (timers s)),
               Response (length (calls s)) (Inr data)]
        = response (length (calls s)) (Inr data) sb"
    by (simp add: sb_def)
  also have "\<dots> = sb\<lparr>tokens := getNewAccessToken data (now sb),
       promises := (promises sb)[p := Fulfilled],
       waiters := filter (\<lambda>w. snd w \<noteq> p) (waiters sb),
       calls := close_call (length (calls s)) (calls sb),
       trace := trace sb @ Assign (getNewAccessToken data (now sb)) #
                          notify sb (getNewAccessToken data (now sb)) @
                          Resolve p # returns p (Value (access_token data)) sb\<rparr>"
    by (rule response_retry_ok [OF ob tb pb])
  also have "\<dots> = s\<lparr>now := now s + int d,
             tokens := ?t,
             promise := None,
             promises := (promises s)[p := Fulfilled],
             waiters := filter (\<lambda>w. snd w \<noteq> p) (waiters s),
             calls := close_call k (calls s) @
               [\<lparr>nc_promise = p, nc_attempt = Retry, nc_request = ?rq, nc_open = False\<rparr>],
             timers := timers s @ [\<lparr>tm_due = now s + 1000, tm_promise = p, tm_armed = False\<rparr>],
             trace := trace s @
               [ConsoleError ''Failed to refresh access token, trying again...'',
                SetTimeout (length (timers s)) 1000, ClearPromise,
                Post (length (calls s)) ?rq, Assign ?t] @
               notify s ?t @ Resolve p # returns p (Value (access_token data)) s\<rparr>"
  proof -
    have 1: "notify sb ?t = notify s ?t" by (rule notify_cong) (simp add: sb)
    have 2: "returns p (Value (access_token data)) sb = returns p (Value (access_token data)) s"
      by (rule returns_cong) (simp add: sb)
    have 3: "close_call (length (calls s)) (calls sb) = close_call k (calls s) @
               [\<lparr>nc_promise = p, nc_attempt = Retry, nc_request = ?rq, nc_open = False\<rparr>]"
      using close_call_last [of "close_call k (calls s)"
              "\<lparr>nc_promise = p, nc_attempt = Retry, nc_request = ?rq, nc_open = True\<rparr>"]
      by (simp add: sb)
    show ?thesis unfolding nb 1 2 3 by (simp add: sb)
  qed
  finally show ?thesis .
qed

section \<open>The claims\<close>

text \<open>
  C1 (as amended). Take any reachable state in which the stored token is expired, and any
  number of callers that call \<open>getAccessToken()\<close> from there, at any later times, while no
  response arrives and no timer fires. If \<open>_promise\<close> holds a promise, all of them wait for
  that promise and no network call is issued. If \<open>_promise\<close> is empty, the first of them
  creates one promise and issues one network call, the first attempt, and all of them wait
  for that one promise. Whenever a response arrives for a call of a promise, either all
  callers that wait for the promise get one and the same outcome, or none gets any and
  all keep waiting. (A refresh issues a second network call for its retry; what happens to
  callers that arrive after the first attempt has failed is not part of this statement.)
\<close>

theorem single_flight_while_first_attempt_is_outstanding:
  "reachable s \<Longrightarrow>
   (expires_at (tokens s) \<le> now s \<longrightarrow> list_all quiet es \<longrightarrow> callers es \<noteq> [] \<longrightarrow>
      (case promise s of
         Some p \<Rightarrow>
           run s es = s\<lparr>now := now s + int (ticks es),
                        waiters := waiters s @ map (\<lambda>c. (c, p)) (callers es)\<rparr>
       | None \<Rightarrow>
           run s es =
             s\<lparr>now := now s + int (ticks es),
               promise := Some (length (promises s)),
               promises := promises s @ [Pending],
               waiters := waiters s @ map (\<lambda>c. (c, length (promises s))) (callers es),
               calls := calls s @
                  [\<lparr>nc_promise = length (promises s), nc_attempt = Initial,
                    nc_request = refresh_request (options s) (refresh_token (tokens s)),
                    nc_open = True\<rparr>],
               trace := trace s @
                  [Post (length (calls s)) (refresh_request (options s) (refresh_token (tokens s))),
                   SetPromise (length (promises s))]\<rparr>)) \<and>
   (open_call s k p a \<longrightarrow>
      (\<exists>out. returned (emitted s (step s (Response k r))) =
               map (\<lambda>c. (c, out)) (waiters_of p s)) \<or>
      (returned (emitted s (step s (Response k r))) = [] \<and>
       waiters (step s (Response k r)) = waiters s))"
proof (intro conjI impI)
  assume r: "reachable s" and e: "expires_at (tokens s) \<le> now s"
    and q: "list_all quiet es" and n: "callers es \<noteq> []"
  show "case promise s of
         Some p \<Rightarrow>
           run s es = s\<lparr>now := now s + int (ticks es),
                        waiters := waiters s @ map (\<lambda>c. (c, p)) (callers es)\<rparr>
       | None \<Rightarrow>
           run s es =
             s\<lparr>now := now s + int (ticks es),
               promise := Some (length (promises s)),
               promises := promises s @ [Pending],
               waiters := waiters s @ map (\<lambda>c. (c, length (promises s))) (callers es),
               calls := calls s @
                  [\<lparr>nc_promise = length (promises s), nc_attempt = Initial,
                    nc_request = refresh_request (options s) (refresh_token (tokens s)),
                    nc_open = True\<rparr>],
               trace := trace s @
                  [Post (length (calls s)) (refresh_request (options s) (refresh_token (tokens s))),
                   SetPromise (length (promises s))]\<rparr>"
  proof (cases "promise s")
    case None
    then show ?thesis using run_quiet_start [OF None e q n] by simp
  next
    case (Some p)
    with r have "pending s p" by (simp add: marker_pending reachable_consistent)
    then show ?thesis using run_quiet_join [OF _ Some e q] Some by simp
  qed
next
  assume r: "reachable s" and o: "open_call s k p a"
  from response_common_outcome [OF reachable_consistent [OF r] o, of r]
  show "(\<exists>out. returned (emitted s (step s (Response k r))) =
               map (\<lambda>c. (c, out)) (waiters_of p s)) \<or>
      (returned (emitted s (step s (Response k r))) = [] \<and>
       waiters (step s (Response k r)) = waiters s)"
    by simp
qed

text \<open>The witness: three callers at and after the moment of expiry share promise 0 and
  one network call, and the response to that call gives all three the same outcome.\<close>

theorem single_flight_while_first_attempt_is_outstanding_witness:
  "reachable (run example_store [Tick 3600000]) \<and>
   expires_at (tokens (run example_store [Tick 3600000])) \<le> now (run example_store [Tick 3600000]) \<and>
   waiters (run (run example_store [Tick 3600000]) [Call 1, Tick 5, Call 2, Call 3])
     = [(1, 0), (2, 0), (3, 0)] \<and>
   emitted (run example_store [Tick 3600000])
     (run (run example_store [Tick 3600000]) [Call 1, Tick 5, Call 2, Call 3])
     = [Post 0 (example_request ''r1''), SetPromise 0] \<and>
   reachable (run example_store [Tick 3600000, Call 1, Tick 5, Call 2, Call 3]) \<and>
   open_call (run example_store [Tick 3600000, Call 1, Tick 5, Call 2, Call 3]) 0 0 Initial \<and>
   ((\<exists>out. returned (emitted (run example_store [Tick 3600000, Call 1, Tick 5, Call 2, Call 3])
        (step (run example_store [Tick 3600000, Call 1, Tick 5, Call 2, Call 3])
           (Response 0 (Inr (example_data ''a2'' ''r2''))))) =
      map (\<lambda>c. (c, out))
        (waiters_of 0 (run example_store [Tick 3600000, Call 1, Tick 5, Call 2, Call 3]))) \<or>
    returned (emitted (run example_store [Tick 3600000, Call 1, Tick 5, Call 2, Call 3])
        (step (run example_store [Tick 3600000, Call 1, Tick 5, Call 2, Call 3])
           (Response 0 (Inr (example_data ''a2'' ''r2''))))) = [] \<and>
    waiters (step (run example_store [Tick 3600000, Call 1, Tick 5, Call 2, Call 3])
           (Response 0 (Inr (example_data ''a2'' ''r2'')))) =
    waiters (run example_store [Tick 3600000, Call 1, Tick 5, Call 2, Call 3])) \<and>
   returned (emitted (run example_store [Tick 3600000, Call 1, Tick 5, Call 2, Call 3])
        (step (run example_store [Tick 3600000, Call 1, Tick 5, Call 2, Call 3])
           (Response 0 (Inr (example_data ''a2'' ''r2''))))) =
     [(1, Value ''a2''), (2, Value ''a2''), (3, Value ''a2'')]"
proof -
  let ?s = "run example_store [Tick 3600000]"
  let ?es = "[Call 1, Tick 5, Call 2, Call 3]"
  let ?u = "run example_store [Tick 3600000, Call 1, Tick 5, Call 2, Call 3]"
  have r: "reachable ?s" and ru: "reachable ?u" by (rule reachable_example)+
  have e: "expires_at (tokens ?s) \<le> now ?s" by (simp add: example_defs)
  have m: "promise ?s = None" by (simp add: example_defs)
  have q: "list_all quiet ?es" "callers ?es \<noteq> []" by simp_all
  from single_flight_while_first_attempt_is_outstanding [OF r, of ?es] e q m
  have eq: "run ?s ?es =
             ?s\<lparr>now := now ?s + int (ticks ?es),
               promise := Some (length (promises ?s)),
               promises := promises ?s @ [Pending],
               waiters := waiters ?s @ map (\<lambda>c. (c, length (promises ?s))) (callers ?es),
               calls := calls ?s @
                  [\<lparr>nc_promise = length (promises ?s), nc_attempt = Initial,
                    nc_request = refresh_request (options ?s) (refresh_token (tokens ?s)),
                    nc_open = True\<rparr>],
               trace := trace ?s @
                  [Post (length (calls ?s)) (refresh_request (options ?s) (refresh_token (tokens ?s))),
                   SetPromise (length (promises ?s))]\<rparr>"
    by simp
  have 1: "waiters (run ?s ?es) = [(1, 0), (2, 0), (3, 0)]"
    unfolding eq by (simp add: example_defs)
  have 2: "emitted ?s (run ?s ?es) = [Post 0 (example_request ''r1''), SetPromise 0]"
    unfolding eq by (simp add: emitted_def example_defs)
  have ou: "open_call ?u 0 0 Initial"
    by (simp add: open_call_def example_defs operation_defs)
  from single_flight_while_first_attempt_is_outstanding
         [OF ru, of _ 0 0 Initial "Inr (example_data ''a2'' ''r2'')"] ou
  have 3: "(\<exists>out. returned (emitted ?u (step ?u (Response 0 (Inr (example_data ''a2'' ''r2''))))) =
               map (\<lambda>c. (c, out)) (waiters_of 0 ?u)) \<or>
      (returned (emitted ?u (step ?u (Response 0 (Inr (example_data ''a2'' ''r2''))))) = [] \<and>
       waiters (step ?u (Response 0 (Inr (example_data ''a2'' ''r2'')))) = waiters ?u)"
    by blast
  have 4: "returned (emitted ?u (step ?u (Response 0 (Inr (example_data ''a2'' ''r2''))))) =
     [(1, Value ''a2''), (2, Value ''a2''), (3, Value ''a2'')]"
    by (simp add: example_defs operation_defs emitted_def)
  from r e 1 2 ru ou 3 4 show ?thesis by blast
qed

text \<open>
  The claim as stated fails, in two ways. With a single caller whose first attempt fails,
  two network calls have been issued before the refresh settles: the first attempt and the
  retry. With two callers: caller 1 calls when the token is expired and the first attempt
  fails; caller 2 calls 500 ms later, when the token is still expired and the refresh of
  caller 1 has not settled, yet caller 2 waits for another promise and a network call of
  its own is issued. The refresh of caller 2 succeeds; the retry of the first refresh is
  the third network call and fails. Caller 2 gets the token \<open>a2\<close>, caller 1 gets the error.
\<close>

theorem single_flight_counterexample:
  "pstatus (run example_store
      [Tick 3600001, Call 1, Response 0 (Inl network_error), Tick 1000, Timeout 0]) 0 = Pending \<and>
   map (\<lambda>c. (nc_promise c, nc_attempt c)) (calls (run example_store
      [Tick 3600001, Call 1, Response 0 (Inl network_error), Tick 1000, Timeout 0]))
     = [(0, Initial), (0, Retry)] \<and>
   accessTokenExpired (run example_store
      [Tick 3600001, Call 1, Response 0 (Inl network_error), Tick 500]) \<and>
   pstatus (run example_store
      [Tick 3600001, Call 1, Response 0 (Inl network_error), Tick 500]) 0 = Pending \<and>
   waiters (run example_store
      [Tick 3600001, Call 1, Response 0 (Inl network_error), Tick 500, Call 2])
     = [(1, 0), (2, 1)] \<and>
   map (\<lambda>c. (nc_promise c, nc_attempt c)) (calls (run example_store
      [Tick 3600001, Call 1, Response 0 (Inl network_error), Tick 500, Call 2,
       Response 1 (Inr (example_data ''a2'' ''r2'')), Tick 500, Timeout 0,
       Response 2 (Inl network_error)]))
     = [(0, Initial), (1, Initial), (0, Retry)] \<and>
   returned (trace (run example_store
      [Tick 3600001, Call 1, Response 0 (Inl network_error), Tick 500, Call 2,
       Response 1 (Inr (example_data ''a2'' ''r2'')), Tick 500, Timeout 0,
       Response 2 (Inl network_error)]))
     = [(2, Value ''a2''), (1, Thrown refresh_failed)]"
  by (simp add: example_defs operation_defs)

text \<open>
  C2. The claim is that the marker \<open>_promise\<close> is cleared only after the final outcome of
  the refresh has been delivered, and not while the retry delay or the retry is pending.
  The code clears it as soon as the \<open>catch\<close> handler of the first attempt has returned,
  because \<open>finally\<close> hangs on the chain of the first attempt only. Here the store of the
  example expires, caller 1 asks for a token and the first attempt fails: the marker is
  clear although the promise is pending, caller 1 waits, the timer is armed and nothing has
  been returned to anyone. A second caller that arrives during the delay therefore starts
  a second refresh, with a second promise and a network call of its own.
\<close>

theorem marker_cleared_while_retry_is_pending:
  "promise (run example_store [Tick 3600001, Call 1, Response 0 (Inl network_error)]) = None \<and>
   promises (run example_store [Tick 3600001, Call 1, Response 0 (Inl network_error)]) = [Pending] \<and>
   waiters (run example_store [Tick 3600001, Call 1, Response 0 (Inl network_error)]) = [(1, 0)] \<and>
   timers (run example_store [Tick 3600001, Call 1, Response 0 (Inl network_error)])
     = [\<lparr>tm_due = 3601001, tm_promise = 0, tm_armed = True\<rparr>] \<and>
   trace (run example_store [Tick 3600001, Call 1, Response 0 (Inl network_error)])
     = [Post 0 (example_request ''r1''), SetPromise 0,
        ConsoleError ''Failed to refresh access token, trying again...'',
        SetTimeout 0 1000, ClearPromise] \<and>
   emitted (run example_store [Tick 3600001, Call 1, Response 0 (Inl network_error)])
           (run example_store [Tick 3600001, Call 1, Response 0 (Inl network_error), Tick 500, Call 2])
     = [Post 1 (example_request ''r1''), SetPromise 1] \<and>
   waiters (run example_store [Tick 3600001, Call 1, Response 0 (Inl network_error), Tick 500, Call 2])
     = [(1, 0), (2, 1)]"
  by (simp add: example_defs operation_defs emitted_def)




text \<open>
  C4 (as amended). In a reachable state, when the transport rejects the network call of a
  first attempt, the stored token set is not changed, nothing reaches a caller and no
  callback is invoked. When the transport rejects the network call of a retry, the promise
  of that refresh is rejected with the error \<open>Failed to refresh access token\<close> (the
  failure that the specification calls RefreshExhausted), every caller that waits for that
  promise gets that error, the stored token set is not changed, no callback is invoked,
  and \<open>_promise\<close> does not hold the settled promise. When nothing else happens to the
  store during the refresh, that is, from a store with an expired token and an empty
  \<open>_promise\<close>, caller \<open>c\<close> starts the refresh, the callers \<open>cs\<close> join it and the transport
  rejects both network calls: then all of them have got the error, the token set is the
  one from before the refresh, no callback has been invoked, \<open>_promise\<close> is empty, and the
  next call of \<open>getAccessToken()\<close> starts a refresh of its own, with a new promise and a
  new first attempt. (Attempts that fail because the callback throws, and callers that
  arrive during the retry delay, are not part of this statement.)
\<close>

theorem two_failures_reject_and_leave_the_tokens:
  "reachable s \<Longrightarrow>
   (open_call s k p Initial \<longrightarrow>
      tokens (step s (Response k (Inl e))) = tokens s \<and>
      emitted s (step s (Response k (Inl e))) =
        [ConsoleError ''Failed to refresh access token, trying again...'',
         SetTimeout (length (timers s)) 1000, ClearPromise]) \<and>
   (open_call s k p Retry \<longrightarrow>
      tokens (step s (Response k (Inl e))) = tokens s \<and>
      emitted s (step s (Response k (Inl e))) =
        Reject p refresh_failed #
        map (\<lambda>c. Return c (Thrown refresh_failed)) (waiters_of p s) \<and>
      waiters_of p (step s (Response k (Inl e))) = [] \<and>
      pstatus (step s (Response k (Inl e))) p = Rejected refresh_failed \<and>
      promise (step s (Response k (Inl e))) \<noteq> Some p) \<and>
   (promise s = None \<longrightarrow> expires_at (tokens s) \<le> now s \<longrightarrow> 1000 \<le> d \<longrightarrow>
      (let s' = run s (Call c # map Call cs @
                  [Response (length (calls s)) (Inl e1), Tick d, Timeout (length (timers s)),
                   Response (Suc (length (calls s))) (Inl e2)])
       in returned (emitted s s') = map (\<lambda>c. (c, Thrown refresh_failed)) (c # cs) \<and>
          notifications (emitted s s') = [] \<and>
          tokens s' = tokens s \<and>
          promise s' = None \<and>
          emitted s' (step s' (Call c')) =
            [Post (Suc (Suc (length (calls s))))
               (refresh_request (options s) (refresh_token (tokens s))),
             SetPromise (Suc (length (promises s)))]))"
proof (intro conjI impI)
  assume o: "open_call s k p Initial"
  show "tokens (step s (Response k (Inl e))) = tokens s"
    by (simp add: response_initial_fail [OF o])
  show "emitted s (step s (Response k (Inl e))) =
        [ConsoleError ''Failed to refresh access token, trying again...'',
         SetTimeout (length (timers s)) 1000, ClearPromise]"
    by (simp add: response_initial_fail [OF o] emitted_def)
next
  assume r: "reachable s" and o: "open_call s k p Retry"
  let ?s1 = "step s (Response k (Inl e))"
  have c: "consistent s" using r by (rule reachable_consistent)
  have pp: "pending s p" using c o by (rule open_call_pending)
  have eq: "?s1 = s\<lparr>promises := (promises s)[p := Rejected refresh_failed],
       waiters := filter (\<lambda>w. snd w \<noteq> p) (waiters s),
       calls := close_call k (calls s),
       trace := trace s @ Reject p refresh_failed # returns p (Thrown refresh_failed) s\<rparr>"
    by (simp add: response_retry_fail [OF o pp])
  show "tokens ?s1 = tokens s" unfolding eq by simp
  show "emitted s ?s1 = Reject p refresh_failed #
        map (\<lambda>c. Return c (Thrown refresh_failed)) (waiters_of p s)"
    unfolding eq by (simp add: emitted_def returns_def)
  show "waiters_of p ?s1 = []" unfolding eq by (simp add: waiters_of_def)
  show "pstatus ?s1 p = Rejected refresh_failed"
    unfolding eq using pp by (simp add: pstatus_def pending_def)
  show "promise ?s1 \<noteq> Some p"
  proof
    assume "promise ?s1 = Some p"
    then have "promise s = Some p" unfolding eq by simp
    with c obtain k' where k': "open_call s k' p Initial" using consistent_marker by blast
    from open_call_unique [OF c o k'] o k' show False by (simp add: open_call_def)
  qed
next
  assume r: "reachable s" and m: "promise s = None" and x: "expires_at (tokens s) \<le> now s"
    and d: "1000 \<le> d"
  define s' where "s' = run s (Call c # map Call cs @
                  [Response (length (calls s)) (Inl e1), Tick d, Timeout (length (timers s)),
                   Response (Suc (length (calls s))) (Inl e2)])"
  note eq = exhausted_refresh [OF r m x d, of c cs e1 e2, folded s'_def]
  have 1: "returned (emitted s s') = map (\<lambda>c. (c, Thrown refresh_failed)) (c # cs)"
  proof -
    have "returned (map (\<lambda>c. Return c (Thrown refresh_failed)) xs) =
          map (\<lambda>c. (c, Thrown refresh_failed)) xs" for xs
      by (induction xs) simp_all
    from this [of "c # cs"] show ?thesis unfolding eq by (simp add: emitted_def)
  qed
  have 2: "notifications (emitted s s') = []"
  proof -
    have "notifications (map (\<lambda>c. Return c (Thrown refresh_failed)) xs) = []" for xs
      by (induction xs) simp_all
    from this [of "c # cs"] show ?thesis unfolding eq by (simp add: emitted_def)
  qed
  have 3: "tokens s' = tokens s" "promise s' = None" unfolding eq using m by simp_all
  have x': "expires_at (tokens s') \<le> now s'" unfolding eq using x by simp
  have 4: "emitted s' (step s' (Call c')) =
            [Post (Suc (Suc (length (calls s))))
               (refresh_request (options s) (refresh_token (tokens s))),
             SetPromise (Suc (length (promises s)))]"
    using getAccessToken_start [OF x' 3(2), of c']
    by (simp add: emitted_def) (simp add: eq)
  from 1 2 3 4 show "let s' = run s (Call c # map Call cs @
                  [Response (length (calls s)) (Inl e1), Tick d, Timeout (length (timers s)),
                   Response (Suc (length (calls s))) (Inl e2)])
       in returned (emitted s s') = map (\<lambda>c. (c, Thrown refresh_failed)) (c # cs) \<and>
          notifications (emitted s s') = [] \<and>
          tokens s' = tokens s \<and>
          promise s' = None \<and>
          emitted s' (step s' (Call c')) =
            [Post (Suc (Suc (length (calls s))))
               (refresh_request (options s) (refresh_token (tokens s))),
             SetPromise (Suc (length (promises s)))]"
    unfolding s'_def Let_def by blast
qed

theorem two_failures_reject_and_leave_the_tokens_witness:
  "reachable (run example_store [OnRefresh (quiet_callback 7), Tick 3600001]) \<and>
   returned (trace (run example_store
      [OnRefresh (quiet_callback 7), Tick 3600001, Call 1, Call 2, Call 3,
       Response 0 (Inl network_error), Tick 1000, Timeout 0, Response 1 (Inl network_error)]))
     = [(1, Thrown refresh_failed), (2, Thrown refresh_failed), (3, Thrown refresh_failed)] \<and>
   notifications (trace (run example_store
      [OnRefresh (quiet_callback 7), Tick 3600001, Call 1, Call 2, Call 3,
       Response 0 (Inl network_error), Tick 1000, Timeout 0, Response 1 (Inl network_error)]))
     = [] \<and>
   tokens (run example_store
      [OnRefresh (quiet_callback 7), Tick 3600001, Call 1, Call 2, Call 3,
       Response 0 (Inl network_error), Tick 1000, Timeout 0, Response 1 (Inl network_error)])
     = tokens example_store \<and>
   reachable (run example_store [OnRefresh (quiet_callback 7), Tick 3600001, Call 1, Call 2]) \<and>
   open_call (run example_store [OnRefresh (quiet_callback 7), Tick 3600001, Call 1, Call 2])
     0 0 Initial \<and>
   tokens (run example_store [OnRefresh (quiet_callback 7), Tick 3600001, Call 1, Call 2,
       Response 0 (Inl network_error)]) = tokens example_store \<and>
   reachable (run example_store [OnRefresh (quiet_callback 7), Tick 3600001, Call 1, Call 2,
       Response 0 (Inl network_error), Tick 1000, Timeout 0]) \<and>
   open_call (run example_store [OnRefresh (quiet_callback 7), Tick 3600001, Call 1, Call 2,
       Response 0 (Inl network_error), Tick 1000, Timeout 0]) 1 0 Retry \<and>
   emitted (run example_store [OnRefresh (quiet_callback 7), Tick 3600001, Call 1, Call 2,
       Response 0 (Inl network_error), Tick 1000, Timeout 0])
     (run example_store [OnRefresh (quiet_callback 7), Tick 3600001, Call 1, Call 2,
       Response 0 (Inl network_error), Tick 1000, Timeout 0, Response 1 (Inl network_error)])
     = [Reject 0 refresh_failed, Return 1 (Thrown refresh_failed),
        Return 2 (Thrown refresh_failed)]"
proof -
  let ?s = "run example_store [OnRefresh (quiet_callback 7), Tick 3600001]"
  let ?es = "[Call 1, Call 2, Call 3,
       Response 0 (Inl network_error), Tick 1000, Timeout 0, Response 1 (Inl network_error)]"
  let ?a = "run example_store [OnRefresh (quiet_callback 7), Tick 3600001, Call 1, Call 2]"
  let ?b = "run example_store [OnRefresh (quiet_callback 7), Tick 3600001, Call 1, Call 2,
       Response 0 (Inl network_error), Tick 1000, Timeout 0]"
  have r: "reachable ?s" and ra: "reachable ?a" and rb: "reachable ?b"
    by (rule reachable_example)+
  have h: "promise ?s = None" "expires_at (tokens ?s) \<le> now ?s" "(1000::nat) \<le> 1000"
    and l: "length (calls ?s) = 0" "length (timers ?s) = 0" "trace ?s = []"
      "tokens ?s = tokens example_store"
    by (simp_all add: example_defs onRefreshToken_def)
  from two_failures_reject_and_leave_the_tokens
         [OF r, of _ _ _ 1000 1 "[2, 3]" network_error network_error] h
  have "let s' = run ?s (Call 1 # map Call [2, 3] @
                  [Response (length (calls ?s)) (Inl network_error), Tick 1000,
                   Timeout (length (timers ?s)),
                   Response (Suc (length (calls ?s))) (Inl network_error)])
       in returned (emitted ?s s') = map (\<lambda>c. (c, Thrown refresh_failed)) (1 # [2, 3]) \<and>
          notifications (emitted ?s s') = [] \<and>
          tokens s' = tokens ?s"
    unfolding Let_def by blast
  then have "returned (emitted ?s (run ?s ?es)) = map (\<lambda>c. (c, Thrown refresh_failed)) [1, 2, 3] \<and>
          notifications (emitted ?s (run ?s ?es)) = [] \<and>
          tokens (run ?s ?es) = tokens example_store"
    unfolding l Let_def by simp
  then have 1: "returned (trace (run ?s ?es)) =
            [(1, Thrown refresh_failed), (2, Thrown refresh_failed), (3, Thrown refresh_failed)] \<and>
          notifications (trace (run ?s ?es)) = [] \<and>
          tokens (run ?s ?es) = tokens example_store"
    unfolding emitted_def l by simp
  have e1: "run ?s ?es = run example_store
      [OnRefresh (quiet_callback 7), Tick 3600001, Call 1, Call 2, Call 3,
       Response 0 (Inl network_error), Tick 1000, Timeout 0, Response 1 (Inl network_error)]"
    by simp
  have oa: "open_call ?a 0 0 Initial"
    by (simp add: open_call_def example_defs operation_defs)
  have ta: "tokens ?a = tokens example_store"
    by (simp add: example_defs operation_defs)
  from two_failures_reject_and_leave_the_tokens [OF ra, of 0 0 network_error] oa
  have "tokens (step ?a (Response 0 (Inl network_error))) = tokens ?a"
    by blast
  then have 2: "tokens (run example_store [OnRefresh (quiet_callback 7), Tick 3600001,
       Call 1, Call 2, Response 0 (Inl network_error)]) = tokens example_store"
    unfolding ta by simp
  have ob: "open_call ?b 1 0 Retry"
    by (simp add: open_call_def example_defs operation_defs)
  have wb: "waiters_of 0 ?b = [1, 2]"
    by (simp add: example_defs operation_defs)
  from two_failures_reject_and_leave_the_tokens [OF rb, of 1 0 network_error] ob
  have "emitted ?b (step ?b (Response 1 (Inl network_error))) =
        Reject 0 refresh_failed #
        map (\<lambda>c. Return c (Thrown refresh_failed)) (waiters_of 0 ?b)"
    by blast
  then have 3: "emitted ?b (run example_store [OnRefresh (quiet_callback 7), Tick 3600001,
       Call 1, Call 2, Response 0 (Inl network_error), Tick 1000, Timeout 0,
       Response 1 (Inl network_error)])
     = [Reject 0 refresh_failed, Return 1 (Thrown refresh_failed),
        Return 2 (Thrown refresh_failed)]"
    unfolding wb by simp
  from r 1 ra oa 2 rb ob 3 show ?thesis unfolding e1 by blast
qed

text \<open>
  The claim as stated fails. In the first two runs only network calls fail. Caller 1 starts
  a refresh whose first attempt fails, and caller 2 calls during the delay and waits for a
  second promise. In the first run both network calls of promise 0 have failed: caller 1
  has got the error, caller 2 is still waiting and has got nothing. In the second run the
  refresh of caller 2 succeeds before the retry of promise 0 fails: both network calls of
  promise 0 have failed, yet the stored token set is \<open>a2\<close> and not the one from before the
  refresh. In the last two runs there is one caller and a callback that throws on \<open>a2\<close>:
  once the first network call fails and the retry succeeds, once the first network call
  succeeds and the retry fails. Both attempts end in their \<open>catch\<close> handlers and the
  caller gets the error, but the token set has been replaced by \<open>a2\<close> and the callback has
  been invoked.
\<close>

theorem two_failures_counterexample:
  "map (\<lambda>c. (nc_promise c, nc_attempt c, nc_open c)) (calls (run example_store
      [Tick 3600001, Call 1, Response 0 (Inl network_error), Tick 500, Call 2,
       Tick 500, Timeout 0, Response 2 (Inl network_error)]))
     = [(0, Initial, False), (1, Initial, True), (0, Retry, False)] \<and>
   returned (trace (run example_store
      [Tick 3600001, Call 1, Response 0 (Inl network_error), Tick 500, Call 2,
       Tick 500, Timeout 0, Response 2 (Inl network_error)]))
     = [(1, Thrown refresh_failed)] \<and>
   waiters (run example_store
      [Tick 3600001, Call 1, Response 0 (Inl network_error), Tick 500, Call 2,
       Tick 500, Timeout 0, Response 2 (Inl network_error)])
     = [(2, 1)] \<and>
   pstatus (run example_store
      [Tick 3600001, Call 1, Response 0 (Inl network_error), Tick 500, Call 2,
       Response 1 (Inr (example_data ''a2'' ''r2'')), Tick 500, Timeout 0,
       Response 2 (Inl network_error)]) 0 = Rejected refresh_failed \<and>
   access_token (tokens (run example_store
      [Tick 3600001, Call 1, Response 0 (Inl network_error), Tick 500, Call 2,
       Response 1 (Inr (example_data ''a2'' ''r2'')), Tick 500, Timeout 0,
       Response 2 (Inl network_error)])) = ''a2'' \<and>
   returned (trace (run example_store
      [OnRefresh (picky_callback 7), Tick 3600001, Call 1, Response 0 (Inl network_error),
       Tick 1000, Timeout 0, Response 1 (Inr (example_data ''a2'' ''r2''))]))
     = [(1, Thrown refresh_failed)] \<and>
   access_token (tokens (run example_store
      [OnRefresh (picky_callback 7), Tick 3600001, Call 1, Response 0 (Inl network_error),
       Tick 1000, Timeout 0, Response 1 (Inr (example_data ''a2'' ''r2''))])) = ''a2'' \<and>
   map (\<lambda>n. (fst n, access_token (snd n))) (notifications (trace (run example_store
      [OnRefresh (picky_callback 7), Tick 3600001, Call 1, Response 0 (Inl network_error),
       Tick 1000, Timeout 0, Response 1 (Inr (example_data ''a2'' ''r2''))])))
     = [(7, ''a2'')] \<and>
   returned (trace (run example_store
      [OnRefresh (picky_callback 7), Tick 3600001, Call 1,
       Response 0 (Inr (example_data ''a2'' ''r2'')), Tick 1000, Timeout 0,
       Response 1 (Inl network_error)]))
     = [(1, Thrown refresh_failed)] \<and>
   access_token (tokens (run example_store
      [OnRefresh (picky_callback 7), Tick 3600001, Call 1,
       Response 0 (Inr (example_data ''a2'' ''r2'')), Tick 1000, Timeout 0,
       Response 1 (Inl network_error)])) = ''a2'' \<and>
   map (\<lambda>n. (fst n, access_token (snd n))) (notifications (trace (run example_store
      [OnRefresh (picky_callback 7), Tick 3600001, Call 1,
       Response 0 (Inr (example_data ''a2'' ''r2'')), Tick 1000, Timeout 0,
       Response 1 (Inl network_error)])))
     = [(7, ''a2'')]"
  by (simp add: example_defs operation_defs)

text \<open>
  C5 (as amended). In a reachable state, every refresh attempt whose network call succeeds,
  the first attempt as well as the retry, assigns the new token set and invokes the
  registered callback (if any) with it, exactly once. If the callback returns, the store
  then resolves the promise and every caller that waits for it gets the new access token,
  in this order: assignment, callback, resolution, callers. On the path on which the first
  network call fails and the retry succeeds with a callback that returns, the callback is
  invoked exactly once over the whole refresh. (A callback that throws is the subject of
  C10 and is left out here.)
\<close>

theorem successful_attempt_assigns_notifies_resolves:
  "reachable s \<Longrightarrow> open_call s k p a \<Longrightarrow>
   tokens (step s (Response k (Inr data))) = getNewAccessToken data (now s) \<and>
   notifications (emitted s (step s (Response k (Inr data)))) =
     (case onTokensRefreshedCallback s of
        None \<Rightarrow> []
      | Some cb \<Rightarrow> [(cb_id cb, getNewAccessToken data (now s))]) \<and>
   (\<not> throws s (getNewAccessToken data (now s)) \<longrightarrow>
      emitted s (step s (Response k (Inr data))) =
        Assign (getNewAccessToken data (now s)) #
        notify s (getNewAccessToken data (now s)) @
        Resolve p #
        map (\<lambda>c. Return c (Value (access_token data))) (waiters_of p s) @
        (if a = Initial then [ClearPromise] else [])) \<and>
   (a = Initial \<longrightarrow> 1000 \<le> d \<longrightarrow> \<not> throws s (getNewAccessToken data (now s + int d)) \<longrightarrow>
      notifications (emitted s
        (run s [Response k (Inl e), Tick d, Timeout (length (timers s)),
                Response (length (calls s)) (Inr data)])) =
        (case onTokensRefreshedCallback s of
           None \<Rightarrow> []
         | Some cb \<Rightarrow> [(cb_id cb, getNewAccessToken data (now s + int d))]) \<and>
      emitted s
        (run s [Response k (Inl e), Tick d, Timeout (length (timers s)),
                Response (length (calls s)) (Inr data)]) =
        [ConsoleError ''Failed to refresh access token, trying again...'',
         SetTimeout (length (timers s)) 1000, ClearPromise,
         Post (length (calls s)) (refresh_request (options s) (refresh_token (tokens s))),
         Assign (getNewAccessToken data (now s + int d))] @
        notify s (getNewAccessToken data (now s + int d)) @
        Resolve p # map (\<lambda>c. Return c (Value (access_token data))) (waiters_of p s))"
proof (intro conjI impI)
  assume r: "reachable s" and o: "open_call s k p a"
  have c: "consistent s" using r by (rule reachable_consistent)
  show "tokens (step s (Response k (Inr data))) = getNewAccessToken data (now s)"
    using tokens_response_data [OF o] by simp
  show "notifications (emitted s (step s (Response k (Inr data)))) =
     (case onTokensRefreshedCallback s of
        None \<Rightarrow> []
      | Some cb \<Rightarrow> [(cb_id cb, getNewAccessToken data (now s))])"
    using response_data_notifications [OF c o, of data] by simp
next
  assume r: "reachable s" and o: "open_call s k p a"
    and nt: "\<not> throws s (getNewAccessToken data (now s))"
  have c: "consistent s" using r by (rule reachable_consistent)
  have pp: "pending s p" using c o by (rule open_call_pending)
  show "emitted s (step s (Response k (Inr data))) =
        Assign (getNewAccessToken data (now s)) #
        notify s (getNewAccessToken data (now s)) @
        Resolve p #
        map (\<lambda>c. Return c (Value (access_token data))) (waiters_of p s) @
        (if a = Initial then [ClearPromise] else [])"
  proof (cases a)
    case Initial
    then show ?thesis
      using response_initial_ok [OF o [unfolded Initial] nt pp]
      by (simp add: emitted_def returns_def)
  next
    case Retry
    then show ?thesis
      using response_retry_ok [OF o [unfolded Retry] nt pp]
      by (simp add: emitted_def returns_def)
  qed
next
  assume r: "reachable s" and o: "open_call s k p a" and a: "a = Initial" and d: "1000 \<le> d"
    and nt: "\<not> throws s (getNewAccessToken data (now s + int d))"
  have c: "consistent s" using r by (rule reachable_consistent)
  note eq = failure_then_retry_success [OF c o [unfolded a] d nt, of e]
  show "emitted s
        (run s [Response k (Inl e), Tick d, Timeout (length (timers s)),
                Response (length (calls s)) (Inr data)]) =
        [ConsoleError ''Failed to refresh access token, trying again...'',
         SetTimeout (length (timers s)) 1000, ClearPromise,
         Post (length (calls s)) (refresh_request (options s) (refresh_token (tokens s))),
         Assign (getNewAccessToken data (now s + int d))] @
        notify s (getNewAccessToken data (now s + int d)) @
        Resolve p # map (\<lambda>c. Return c (Value (access_token data))) (waiters_of p s)"
    unfolding eq by (simp add: emitted_def returns_def)
  then show "notifications (emitted s
        (run s [Response k (Inl e), Tick d, Timeout (length (timers s)),
                Response (length (calls s)) (Inr data)])) =
        (case onTokensRefreshedCallback s of
           None \<Rightarrow> []
         | Some cb \<Rightarrow> [(cb_id cb, getNewAccessToken data (now s + int d))])"
    using notifications_returns [of p "Value (access_token data)" s]
    by (simp add: notifications_notify returns_def del: notifications_returns)
qed

theorem successful_attempt_assigns_notifies_resolves_witness:
  "reachable (run example_store [OnRefresh (quiet_callback 7), Tick 3600001, Call 1, Call 2]) \<and>
   open_call (run example_store [OnRefresh (quiet_callback 7), Tick 3600001, Call 1, Call 2])
     0 0 Initial \<and>
   emitted (run example_store [OnRefresh (quiet_callback 7), Tick 3600001, Call 1, Call 2])
     (run example_store [OnRefresh (quiet_callback 7), Tick 3600001, Call 1, Call 2,
        Response 0 (Inr (example_data ''a2'' ''r2''))]) =
     [Assign (getNewAccessToken (example_data ''a2'' ''r2'') 3600001),
      Notify 7 (getNewAccessToken (example_data ''a2'' ''r2'') 3600001),
      Resolve 0, Return 1 (Value ''a2''), Return 2 (Value ''a2''), ClearPromise] \<and>
   notifications (emitted
     (run example_store [OnRefresh (quiet_callback 7), Tick 3600001, Call 1, Call 2])
     (run example_store [OnRefresh (quiet_callback 7), Tick 3600001, Call 1, Call 2,
        Response 0 (Inl network_error), Tick 1000, Timeout 0,
        Response 1 (Inr (example_data ''a2'' ''r2''))])) =
     [(7, getNewAccessToken (example_data ''a2'' ''r2'') 3601001)]"
proof -
  let ?s = "run example_store [OnRefresh (quiet_callback 7), Tick 3600001, Call 1, Call 2]"
  let ?data = "example_data ''a2'' ''r2''"
  have r: "reachable ?s" by (rule reachable_example)
  have o: "open_call ?s 0 0 Initial"
    by (simp add: open_call_def example_defs operation_defs)
  have v: "now ?s = 3600001" "waiters_of 0 ?s = [1, 2]" "length (timers ?s) = 0"
    "length (calls ?s) = Suc 0" "onTokensRefreshedCallback ?s = Some (quiet_callback 7)"
    by (simp_all add: example_defs operation_defs)
  have nt: "\<not> throws ?s t" for t
    unfolding throws_def v by (simp add: quiet_callback_def)
  have nf: "notify ?s t = [Notify 7 t]" for t
    unfolding notify_def v by (simp add: quiet_callback_def)
  note th = successful_attempt_assigns_notifies_resolves [OF r o, of ?data 1000 network_error]
  from th nt have "emitted ?s (step ?s (Response 0 (Inr ?data))) =
        Assign (getNewAccessToken ?data (now ?s)) #
        notify ?s (getNewAccessToken ?data (now ?s)) @
        Resolve 0 #
        map (\<lambda>c. Return c (Value (access_token ?data))) (waiters_of 0 ?s) @
        (if Initial = Initial then [ClearPromise] else [])"
    by blast
  then have 1: "emitted ?s (run ?s [Response 0 (Inr ?data)]) =
     [Assign (getNewAccessToken ?data 3600001), Notify 7 (getNewAccessToken ?data 3600001),
      Resolve 0, Return 1 (Value ''a2''), Return 2 (Value ''a2''), ClearPromise]"
    unfolding v nf by (simp add: example_data_def)
  have d: "(1000::nat) \<le> 1000" by simp
  from th nt d have "notifications (emitted ?s
        (run ?s [Response 0 (Inl network_error), Tick 1000, Timeout (length (timers ?s)),
                Response (length (calls ?s)) (Inr ?data)])) =
        (case onTokensRefreshedCallback ?s of
           None \<Rightarrow> []
         | Some cb \<Rightarrow> [(cb_id cb, getNewAccessToken ?data (now ?s + int 1000))])"
    by blast
  then have 2: "notifications (emitted ?s
        (run ?s [Response 0 (Inl network_error), Tick 1000, Timeout 0,
                Response 1 (Inr ?data)])) = [(7, getNewAccessToken ?data 3601001)]"
    unfolding v by (simp add: quiet_callback_def)
  have e1: "run ?s [Response 0 (Inr ?data)] =
     run example_store [OnRefresh (quiet_callback 7), Tick 3600001, Call 1, Call 2,
        Response 0 (Inr ?data)]"
    and e2: "run ?s [Response 0 (Inl network_error), Tick 1000, Timeout 0, Response 1 (Inr ?data)] =
     run example_store [OnRefresh (quiet_callback 7), Tick 3600001, Call 1, Call 2,
        Response 0 (Inl network_error), Tick 1000, Timeout 0, Response 1 (Inr ?data)]"
    by simp_all
  from r o 1 2 show ?thesis unfolding e1 e2 by blast
qed

text \<open>
  The claim as stated fails when the callback throws. The callback of this run throws on
  the token set \<open>a2\<close> and returns on every other. The first network call succeeds with
  \<open>a2\<close>: the callback is invoked, no caller is resolved. The retry succeeds with \<open>a3\<close>: the
  callback is invoked again, and the refresh is fulfilled. Over this one successful refresh
  the callback has fired twice.
\<close>

theorem callback_fires_twice_counterexample:
  "returned (trace (run example_store
      [OnRefresh (picky_callback 7), Tick 3600001, Call 1,
       Response 0 (Inr (example_data ''a2'' ''r2''))])) = [] \<and>
   promises (run example_store
      [OnRefresh (picky_callback 7), Tick 3600001, Call 1,
       Response 0 (Inr (example_data ''a2'' ''r2'')), Tick 1000, Timeout 0,
       Response 1 (Inr (example_data ''a3'' ''r3''))]) = [Fulfilled] \<and>
   returned (trace (run example_store
      [OnRefresh (picky_callback 7), Tick 3600001, Call 1,
       Response 0 (Inr (example_data ''a2'' ''r2'')), Tick 1000, Timeout 0,
       Response 1 (Inr (example_data ''a3'' ''r3''))])) = [(1, Value ''a3'')] \<and>
   map (\<lambda>n. (fst n, access_token (snd n))) (notifications (trace (run example_store
      [OnRefresh (picky_callback 7), Tick 3600001, Call 1,
       Response 0 (Inr (example_data ''a2'' ''r2'')), Tick 1000, Timeout 0,
       Response 1 (Inr (example_data ''a3'' ''r3''))]))) = [(7, ''a2''), (7, ''a3'')]"
  by (simp add: example_defs operation_defs)

text \<open>
  C6. Every token set that an initial grant or a refresh produces has
  \<open>expires_at = t + expires_in * 1000\<close>, where \<open>t\<close> is the time at which the exchange
  call completed: this holds for what \<open>getNewAccessToken\<close> builds from a response and for
  the token set of the store that \<open>login\<close> returns. Afterwards \<open>expires_at\<close> is never
  recomputed: every step of a store either leaves the whole token set as it was, or is a
  response with data and replaces the whole token set by the one built from that data at
  the current time.
\<close>

theorem expires_at_set_at_creation_only:
  "expires_at (getNewAccessToken data t) = t + expires_in data * 1000 \<and>
   (\<forall>store. snd (login opts post t clientOptions) = Inr store \<longrightarrow>
      expires_at (tokens store) = t + expires_in (tokens store) * 1000) \<and>
   (tokens (step s e) = tokens s \<or>
    (\<exists>k data'. e = Response k (Inr data') \<and>
                tokens (step s e) = getNewAccessToken data' (now s)))"
proof (intro conjI allI impI)
  show "expires_at (getNewAccessToken data t) = t + expires_in data * 1000"
    by (simp add: getNewAccessToken_def)
next
  fix store
  assume "snd (login opts post t clientOptions) = Inr store"
  then show "expires_at (tokens store) = t + expires_in (tokens store) * 1000"
    by (auto simp: login_def Let_def new_TokenStore_def split: sum.splits)
next
  show "tokens (step s e) = tokens s \<or>
    (\<exists>k data'. e = Response k (Inr data') \<and>
                tokens (step s e) = getNewAccessToken data' (now s))"
    by (rule tokens_step)
qed

theorem expires_at_set_at_creation_only_witness:
  "snd (loginPassword example_options (\<lambda>rq. Inr (example_data ''a1'' ''r1'')) 0 ''ann'' ''pw'')
     = Inr example_store \<and>
   expires_at (tokens example_store) = 3600000 \<and>
   expires_at (tokens (run example_store
      [Tick 3600001, Call 1, Response 0 (Inr (example_data ''a2'' ''r2''))])) = 7200001"
proof -
  let ?post = "\<lambda>rq :: ClientOptions request. (Inr (example_data ''a1'' ''r1'') :: thrown + OAuth2ClientTokens)"
  let ?co = "\<lparr>co_client_id = clientId example_options, co_code = None, co_state = None,
        co_username = Some ''ann'', co_password = Some ''pw'',
        co_client_secret = clientSecret example_options, co_grant_type = Grant_password,
        co_scope = joined_scopes example_options\<rparr>"
  have l: "snd (login example_options ?post 0 ?co) = Inr example_store"
    by (simp add: login_def example_defs)
  from expires_at_set_at_creation_only
         [of "example_data ''a1'' ''r1''" 0 example_options ?post ?co example_store "Tick 0"] l
  have "expires_at (tokens example_store) = 0 + expires_in (tokens example_store) * 1000"
    by blast
  then have "expires_at (tokens example_store) = 3600000"
    by (simp add: example_defs)
  moreover have "expires_at (tokens (run example_store
      [Tick 3600001, Call 1, Response 0 (Inr (example_data ''a2'' ''r2''))])) = 7200001"
    by (simp add: example_defs operation_defs)
  ultimately show ?thesis
    using l by (simp add: loginPassword_def)
qed

text \<open>
  C7. In every reachable state, a call of \<open>getAccessToken()\<close> at a time before
  \<open>expires_at\<close> returns the cached access token at once and does nothing else: no network
  call, no other change of the store. At a time at or after \<open>expires_at\<close>, the boundary
  included, nothing is returned to the caller in that step: the caller joins the promise
  in \<open>_promise\<close> if there is one, and otherwise initiates a refresh (a new promise, one
  network call with the stored refresh token) and waits for it.
\<close>

theorem getAccessToken_cached_exactly_when_unexpired:
  "reachable s \<Longrightarrow>
   (now s < expires_at (tokens s) \<longrightarrow>
      step s (Call c) = s\<lparr>trace := trace s @ [Return c (Value (access_token (tokens s)))]\<rparr>) \<and>
   (expires_at (tokens s) \<le> now s \<longrightarrow>
      returned (emitted s (step s (Call c))) = [] \<and>
      (case promise s of
         Some p \<Rightarrow> step s (Call c) = s\<lparr>waiters := waiters s @ [(c, p)]\<rparr>
       | None \<Rightarrow>
           step s (Call c) =
             s\<lparr>promise := Some (length (promises s)),
               promises := promises s @ [Pending],
               waiters := waiters s @ [(c, length (promises s))],
               calls := calls s @
                  [\<lparr>nc_promise = length (promises s), nc_attempt = Initial,
                    nc_request = refresh_request (options s) (refresh_token (tokens s)),
                    nc_open = True\<rparr>],
               trace := trace s @
                  [Post (length (calls s)) (refresh_request (options s) (refresh_token (tokens s))),
                   SetPromise (length (promises s))]\<rparr>))"
proof (intro conjI impI)
  assume "now s < expires_at (tokens s)"
  then show "step s (Call c) = s\<lparr>trace := trace s @ [Return c (Value (access_token (tokens s)))]\<rparr>"
    by (simp add: getAccessToken_valid)
next
  assume r: "reachable s" and e: "expires_at (tokens s) \<le> now s"
  show "returned (emitted s (step s (Call c))) = []"
  proof (cases "promise s")
    case None
    with e show ?thesis by (simp add: getAccessToken_start emitted_def)
  next
    case (Some p)
    with r have "pending s p" by (simp add: marker_pending reachable_consistent)
    with e Some show ?thesis by (simp add: getAccessToken_join emitted_def)
  qed
next
  assume r: "reachable s" and e: "expires_at (tokens s) \<le> now s"
  show "case promise s of
         Some p \<Rightarrow> step s (Call c) = s\<lparr>waiters := waiters s @ [(c, p)]\<rparr>
       | None \<Rightarrow>
           step s (Call c) =
             s\<lparr>promise := Some (length (promises s)),
               promises := promises s @ [Pending],
               waiters := waiters s @ [(c, length (promises s))],
               calls := calls s @
                  [\<lparr>nc_promise = length (promises s), nc_attempt = Initial,
                    nc_request = refresh_request (options s) (refresh_token (tokens s)),
                    nc_open = True\<rparr>],
               trace := trace s @
                  [Post (length (calls s)) (refresh_request (options s) (refresh_token (tokens s))),
                   SetPromise (length (promises s))]\<rparr>"
  proof (cases "promise s")
    case None
    with e show ?thesis by (simp add: getAccessToken_start)
  next
    case (Some p)
    with r have "pending s p" by (simp add: marker_pending reachable_consistent)
    with e Some show ?thesis by (simp add: getAccessToken_join)
  qed
qed

text \<open>The witness: one millisecond before expiry the cached token is returned, and at the
  instant of expiry a refresh is started instead.\<close>

theorem getAccessToken_cached_exactly_when_unexpired_witness:
  "reachable (run example_store [Tick 3599999]) \<and>
   emitted (run example_store [Tick 3599999]) (run example_store [Tick 3599999, Call 1])
     = [Return 1 (Value ''a1'')] \<and>
   reachable (run example_store [Tick 3600000]) \<and>
   emitted (run example_store [Tick 3600000]) (run example_store [Tick 3600000, Call 1])
     = [Post 0 (example_request ''r1''), SetPromise 0]"
proof -
  let ?s = "run example_store [Tick 3599999]"
  let ?u = "run example_store [Tick 3600000]"
  have rs: "reachable ?s" and ru: "reachable ?u" by (rule reachable_example)+
  have vs: "now ?s < expires_at (tokens ?s)" by (simp add: example_defs)
  have vu: "expires_at (tokens ?u) \<le> now ?u" by (simp add: example_defs)
  have mu: "promise ?u = None" by (simp add: example_defs)
  from getAccessToken_cached_exactly_when_unexpired [OF rs, of 1] vs
  have "step ?s (Call 1) = ?s\<lparr>trace := trace ?s @ [Return 1 (Value (access_token (tokens ?s)))]\<rparr>"
    by blast
  then have 1: "emitted ?s (run example_store [Tick 3599999, Call 1]) = [Return 1 (Value ''a1'')]"
    by (simp add: emitted_def example_defs)
  from getAccessToken_cached_exactly_when_unexpired [OF ru, of 1] vu mu
  have "trace (step ?u (Call 1)) = trace ?u @
          [Post (length (calls ?u)) (refresh_request (options ?u) (refresh_token (tokens ?u))),
           SetPromise (length (promises ?u))]"
    by simp
  then have 2: "emitted ?u (run example_store [Tick 3600000, Call 1])
     = [Post 0 (example_request ''r1''), SetPromise 0]"
    by (simp add: emitted_def example_defs)
  from rs ru 1 2 show ?thesis by blast
qed



text \<open>
  C9 (as amended). When the transport call of an initial grant fails, for the password
  grant as for the authorization grant, the grant operation fails with the transport's
  own error, passed on unchanged: the source has no error kinds and wraps nothing. The
  error is not swallowed, exactly one request has been sent (there is no retry at this
  layer), and no \<open>TokenStore\<close> is produced.
\<close>

theorem grant_fails_with_the_transport_error:
  "(post (grant_request opts clientOptions) = Inl e \<longrightarrow>
      login opts post t clientOptions = ([grant_request opts clientOptions], Inl e)) \<and>
   (post (grant_request opts (password_body opts username password)) = Inl e \<longrightarrow>
      loginPassword opts post t username password =
        ([grant_request opts (password_body opts username password)], Inl e)) \<and>
   (post (grant_request opts (authorization_body opts code state grantType)) = Inl e \<longrightarrow>
      loginAuthorization opts post t code state grantType =
        ([grant_request opts (authorization_body opts code state grantType)], Inl e))"
  by (simp add: login_def loginPassword_def loginAuthorization_def grant_request_def
      password_body_def authorization_body_def)

theorem grant_fails_with_the_transport_error_witness:
  "loginPassword example_options (\<lambda>rq. Inl network_error) 0 ''ann'' ''pw'' =
     ([grant_request example_options (password_body example_options ''ann'' ''pw'')],
      Inl network_error) \<and>
   loginAuthorization example_options (\<lambda>rq. Inl network_error) 0 ''code'' ''state'' Grant_ad =
     ([grant_request example_options (authorization_body example_options ''code'' ''state'' Grant_ad)],
      Inl network_error)"
  using grant_fails_with_the_transport_error
          [where post = "\<lambda>rq. Inl network_error" and opts = example_options
             and e = network_error and username = "''ann''" and password = "''pw''"
             and code = "''code''" and state = "''state''" and grantType = Grant_ad and t = 0]
  by simp

text \<open>
  The claim as stated fails: the value with which the password grant rejects is the
  transport error itself, which is not an error that wraps the transport error.
\<close>

theorem grant_error_not_wrapped_counterexample:
  "snd (loginPassword example_options (\<lambda>rq. Inl network_error) 0 ''ann'' ''pw'')
     = Inl network_error \<and>
   \<not> wraps network_error network_error"
  by (simp add: loginPassword_def login_def wraps_def network_error_def)

text \<open>
  C10. In a reachable state, let the network call of a first attempt succeed while the
  registered callback throws on the new token set. Then the stored token set has already
  been replaced by the new one, the callback has been invoked, no caller has been resolved
  and the promise is still pending; the store has logged the failure, started the timer of
  1000 ms and cleared \<open>_promise\<close>. The timer does not fire before 1000 ms have passed. When
  it fires, a second network call is posted, with the refresh token that was just stored.
  When that call succeeds, the callback is invoked a second time, with the token set of
  the second response.
\<close>

theorem throwing_callback_takes_the_failure_path:
  "reachable s \<Longrightarrow> open_call s k p Initial \<Longrightarrow> onTokensRefreshedCallback s = Some cb \<Longrightarrow>
   cb_throws cb (getNewAccessToken data (now s)) \<Longrightarrow> 1000 \<le> d \<Longrightarrow>
   tokens (step s (Response k (Inr data))) = getNewAccessToken data (now s) \<and>
   pending (step s (Response k (Inr data))) p \<and>
   emitted s (step s (Response k (Inr data))) =
     [Assign (getNewAccessToken data (now s)),
      Notify (cb_id cb) (getNewAccessToken data (now s)),
      ConsoleError ''Failed to refresh access token, trying again...'',
      SetTimeout (length (timers s)) 1000, ClearPromise] \<and>
   (\<forall>d'. d' < 1000 \<longrightarrow>
      run s [Response k (Inr data), Tick d', Timeout (length (timers s))] =
      run s [Response k (Inr data), Tick d']) \<and>
   emitted (step s (Response k (Inr data)))
     (run s [Response k (Inr data), Tick d, Timeout (length (timers s))]) =
     [Post (length (calls s)) (refresh_request (options s) (refresh_token data))] \<and>
   notifications (emitted
     (run s [Response k (Inr data), Tick d, Timeout (length (timers s))])
     (run s [Response k (Inr data), Tick d, Timeout (length (timers s)),
             Response (length (calls s)) (Inr data')])) =
     [(cb_id cb, getNewAccessToken data' (now s + int d))]"
proof (intro conjI allI impI)
  assume r: "reachable s" and o: "open_call s k p Initial"
    and cb: "onTokensRefreshedCallback s = Some cb"
    and t: "cb_throws cb (getNewAccessToken data (now s))" and d: "1000 \<le> d"
  let ?t = "getNewAccessToken data (now s)"
  define s1 where "s1 = step s (Response k (Inr data))"
  define s2 where "s2 = run s [Response k (Inr data), Tick d, Timeout (length (timers s))]"
  have c: "consistent s" using r by (rule reachable_consistent)
  have pp: "pending s p" using c o by (rule open_call_pending)
  have th: "throws s ?t" using cb t by (simp add: throws_def)
  have nf: "notify s ?t = [Notify (cb_id cb) ?t]" using cb by (simp add: notify_def)
  have s1: "s1 = s\<lparr>tokens := ?t, promise := None, calls := close_call k (calls s),
       timers := timers s @ [\<lparr>tm_due = now s + 1000, tm_promise = p, tm_armed = True\<rparr>],
       trace := trace s @ [Assign ?t, Notify (cb_id cb) ?t,
                           ConsoleError ''Failed to refresh access token, trying again...'',
                           SetTimeout (length (timers s)) 1000, ClearPromise]\<rparr>"
    unfolding s1_def by (simp add: response_initial_throw [OF o th] nf)
  note s2 = throw_then_retry [OF o d th, folded s2_def, unfolded nf]
  show "tokens (step s (Response k (Inr data))) = ?t"
    unfolding s1_def [symmetric] by (simp add: s1)
  show "pending (step s (Response k (Inr data))) p"
    unfolding s1_def [symmetric] using pp by (simp add: s1 pending_def)
  show "emitted s (step s (Response k (Inr data))) =
     [Assign ?t, Notify (cb_id cb) ?t,
      ConsoleError ''Failed to refresh access token, trying again...'',
      SetTimeout (length (timers s)) 1000, ClearPromise]"
    unfolding s1_def [symmetric] by (simp add: s1 emitted_def)
  show "emitted (step s (Response k (Inr data)))
     (run s [Response k (Inr data), Tick d, Timeout (length (timers s))]) =
     [Post (length (calls s)) (refresh_request (options s) (refresh_token data))]"
    unfolding s1_def [symmetric] s2_def [symmetric] by (simp add: s1 s2 emitted_def)
  have "reachable s2" unfolding s2_def using r by (rule reachable_run)
  then have c2: "consistent s2" by (rule reachable_consistent)
  have o2: "open_call s2 (length (calls s)) p Retry"
    using open_call_last [of s2 "close_call k (calls s)" p Retry
            "refresh_request (options s) (refresh_token data)"]
    by (simp add: s2)
  have "notifications (emitted s2 (response (length (calls s)) (Inr data') s2)) =
          [(cb_id cb, getNewAccessToken data' (now s + int d))]"
    unfolding response_data_notifications [OF c2 o2] using cb by (simp add: s2)
  moreover have "run s [Response k (Inr data), Tick d, Timeout (length (timers s)),
             Response (length (calls s)) (Inr data')] = response (length (calls s)) (Inr data') s2"
    by (simp add: s2_def)
  ultimately show "notifications (emitted
     (run s [Response k (Inr data), Tick d, Timeout (length (timers s))])
     (run s [Response k (Inr data), Tick d, Timeout (length (timers s)),
             Response (length (calls s)) (Inr data')])) =
     [(cb_id cb, getNewAccessToken data' (now s + int d))]"
    unfolding s2_def [symmetric] by simp
  fix d' :: nat
  assume d': "d' < 1000"
  have "run s1 [Tick d', Timeout (length (timers s))] = s1\<lparr>now := now s1 + int d'\<rparr>"
    by (rule retry_not_posted_before_delay [where due = "now s + 1000" and p = p])
       (use d' in \<open>simp_all add: s1\<close>)
  then show "run s [Response k (Inr data), Tick d', Timeout (length (timers s))] =
      run s [Response k (Inr data), Tick d']"
    by (simp add: s1_def)
qed

theorem throwing_callback_takes_the_failure_path_witness:
  "reachable (run example_store [OnRefresh (picky_callback 7), Tick 3600001, Call 1]) \<and>
   open_call (run example_store [OnRefresh (picky_callback 7), Tick 3600001, Call 1])
     0 0 Initial \<and>
   cb_throws (picky_callback 7) (getNewAccessToken (example_data ''a2'' ''r2'') 3600001) \<and>
   emitted (run example_store [OnRefresh (picky_callback 7), Tick 3600001, Call 1,
        Response 0 (Inr (example_data ''a2'' ''r2''))])
     (run example_store [OnRefresh (picky_callback 7), Tick 3600001, Call 1,
        Response 0 (Inr (example_data ''a2'' ''r2'')), Tick 1000, Timeout 0]) =
     [Post 1 (example_request ''r2'')] \<and>
   notifications (emitted
     (run example_store [OnRefresh (picky_callback 7), Tick 3600001, Call 1,
        Response 0 (Inr (example_data ''a2'' ''r2'')), Tick 1000, Timeout 0])
     (run example_store [OnRefresh (picky_callback 7), Tick 3600001, Call 1,
        Response 0 (Inr (example_data ''a2'' ''r2'')), Tick 1000, Timeout 0,
        Response 1 (Inr (example_data ''a3'' ''r3''))])) =
     [(7, getNewAccessToken (example_data ''a3'' ''r3'') 3601001)]"
proof -
  let ?s = "run example_store [OnRefresh (picky_callback 7), Tick 3600001, Call 1]"
  let ?data = "example_data ''a2'' ''r2''"
  have r: "reachable ?s" by (rule reachable_example)
  have o: "open_call ?s 0 0 Initial"
    by (simp add: open_call_def example_defs operation_defs)
  have v: "now ?s = 3600001" "length (timers ?s) = 0" "length (calls ?s) = Suc 0"
    "options ?s = example_options"
    and cb: "onTokensRefreshedCallback ?s = Some (picky_callback 7)"
    by (simp_all add: example_store_def new_TokenStore_def getNewAccessToken_def
        example_data_def operation_defs)
  have t: "cb_throws (picky_callback 7) (getNewAccessToken ?data (now ?s))"
    unfolding v by (simp add: picky_callback_def getNewAccessToken_def example_data_def)
  note th = throwing_callback_takes_the_failure_path
              [OF r o cb t, of 1000 "example_data ''a3'' ''r3''"]
  from th have 1: "emitted (step ?s (Response 0 (Inr ?data)))
     (run ?s [Response 0 (Inr ?data), Tick 1000, Timeout (length (timers ?s))]) =
     [Post (length (calls ?s)) (refresh_request (options ?s) (refresh_token ?data))]"
    by simp
  from th have 2: "notifications (emitted
     (run ?s [Response 0 (Inr ?data), Tick 1000, Timeout (length (timers ?s))])
     (run ?s [Response 0 (Inr ?data), Tick 1000, Timeout (length (timers ?s)),
             Response (length (calls ?s)) (Inr (example_data ''a3'' ''r3''))])) =
     [(cb_id (picky_callback 7), getNewAccessToken (example_data ''a3'' ''r3'') (now ?s + int 1000))]"
    by simp
  have i: "cb_id (picky_callback 7) = 7" "refresh_token ?data = ''r2''"
    by (simp_all add: picky_callback_def example_data_def)
  from 1 have w1: "emitted (run example_store [OnRefresh (picky_callback 7), Tick 3600001, Call 1,
        Response 0 (Inr ?data)])
     (run example_store [OnRefresh (picky_callback 7), Tick 3600001, Call 1,
        Response 0 (Inr ?data), Tick 1000, Timeout 0]) = [Post 1 (example_request ''r2'')]"
    unfolding v i by (simp add: example_request_def)
  from 2 have w2: "notifications (emitted
     (run example_store [OnRefresh (picky_callback 7), Tick 3600001, Call 1,
        Response 0 (Inr ?data), Tick 1000, Timeout 0])
     (run example_store [OnRefresh (picky_callback 7), Tick 3600001, Call 1,
        Response 0 (Inr ?data), Tick 1000, Timeout 0,
        Response 1 (Inr (example_data ''a3'' ''r3''))])) =
     [(7, getNewAccessToken (example_data ''a3'' ''r3'') 3601001)]"
    unfolding v i by simp
  from t have t': "cb_throws (picky_callback 7) (getNewAccessToken ?data 3600001)"
    unfolding v .
  from r o t' w1 w2 show ?thesis by blast
qed

end
